theory Spec2Isabelle
  imports Complex_Main "HOL-Library.Word"
begin

text \<open>
  A shallow embedding of the polyglot service: \<open>createPolyglot\<close>, which appends a
  length-prefixed metadata record and a hidden file to a container, and the decoders
  \<open>processPayload\<close>, \<open>decodeM4AContainer\<close>, \<open>decodePolyglot\<close> and
  \<open>decodePolyglotWithAI\<close>, which find the boundary and classify what follows it.
  The definitions follow the TypeScript source function by function; the properties
  proved about them come after.
\<close>

section \<open>Bytes, buffers and the browser platform\<close>

text \<open>
  A \<open>Uint8Array\<close> is a list of 8-bit words. Indices and lengths are natural numbers;
  a search that returns \<open>-1\<close> in the source returns \<open>None\<close> here. \<open>data.slice(k)\<close> is
  \<open>drop k data\<close> and \<open>data.slice(a, b)\<close> is \<open>take (b - a) (drop a data)\<close>.
\<close>

type_synonym byte = "8 word"
type_synonym bytes = "byte list"

text \<open>Exceptions that the decoding code can meet inside its \<open>try\<close> blocks.\<close>

datatype js_error = RangeError | SyntaxError | TypeError | OracleFailed

text \<open>
  A number produced by \<open>JSON.parse\<close>: a finite double, which is a rational number, or
  an infinity (the result of an overflowing literal such as \<open>1e999\<close>). \<open>JSON.parse\<close>
  never produces \<open>NaN\<close>.
\<close>

datatype jsnumber = Finite rat | PosInfinity | NegInfinity

text \<open>A value produced by \<open>JSON.parse\<close>.\<close>

datatype json =
    JNull
  | JBool bool
  | JNumber jsnumber
  | JString string
  | JArray "json list"
  | JObject "(string \<times> json) list"

record File =
  file_name :: string
  file_type :: string
  file_bytes :: bytes

text \<open>
  The library functions of the JavaScript platform that the service calls but does not
  define: \<open>JSON.stringify\<close>, \<open>JSON.parse\<close> (\<open>None\<close> when it throws \<open>SyntaxError\<close>),
  \<open>TextEncoder.encode\<close>, \<open>TextDecoder.decode\<close> (never throws), and the two canvas
  conversions used by the auto-convert policy (\<open>None\<close> when the promise rejects).
\<close>

record platform =
  json_stringify :: "json \<Rightarrow> string"
  json_parse :: "string \<Rightarrow> json option"
  text_encode :: "string \<Rightarrow> bytes"
  text_decode :: "bytes \<Rightarrow> string"
  convertTextToPng :: "string \<Rightarrow> bytes option"
  convertImage :: "File \<Rightarrow> string \<Rightarrow> bytes option"

text \<open>
  Property access \<open>v.key\<close> on a parsed value: \<open>null.key\<close> throws \<open>TypeError\<close>; an object
  gives the stored value or \<open>undefined\<close> (\<open>None\<close>); booleans, numbers, strings and arrays
  have no property called \<open>name\<close>, \<open>type\<close> or \<open>splitIndex\<close>, so they give \<open>undefined\<close>.
\<close>

fun getProp :: "json \<Rightarrow> string \<Rightarrow> js_error + json option" where
  "getProp JNull k = Inl TypeError"
| "getProp (JObject kvs) k = Inr (map_of kvs k)"
| "getProp v k = Inr None"

text \<open>\<open>typeof v === 'string'\<close> on the result of a property access.\<close>

fun asString :: "json option \<Rightarrow> string option" where
  "asString (Some (JString s)) = Some s"
| "asString v = None"

text \<open>\<open>typeof v === 'number'\<close> on the result of a property access.\<close>

fun asNumber :: "json option \<Rightarrow> jsnumber option" where
  "asNumber (Some (JNumber n)) = Some n"
| "asNumber v = None"

text \<open>
  \<open>DataView.getUint32(off, false)\<close>: four bytes, most significant first; \<open>RangeError\<close>
  (\<open>None\<close>) when the four bytes do not lie inside the buffer.
\<close>

definition getUint32 :: "bytes \<Rightarrow> nat \<Rightarrow> nat option" where
  "getUint32 d off =
     (if off + 4 \<le> length d
      then Some (unat (d ! off) * 2 ^ 24 + unat (d ! (off + 1)) * 2 ^ 16
                 + unat (d ! (off + 2)) * 2 ^ 8 + unat (d ! (off + 3)))
      else None)"

text \<open>
  \<open>new DataView(new ArrayBuffer(4)).setUint32(0, n, false)\<close>: the value is reduced modulo
  \<open>2^32\<close> and stored most significant byte first.
\<close>

definition setUint32 :: "nat \<Rightarrow> bytes" where
  "setUint32 n =
     [of_nat (n mod 2 ^ 32 div 2 ^ 24), of_nat (n mod 2 ^ 32 div 2 ^ 16),
      of_nat (n mod 2 ^ 32 div 2 ^ 8), of_nat (n mod 2 ^ 32)]"

section \<open>Decoded files\<close>

text \<open>
  \<open>DecodedFile\<close>: the blob is kept as its bytes; \<open>size\<close> is \<open>blob.size\<close>.
\<close>

record DecodedFile =
  df_blob :: bytes
  df_name :: string
  df_type :: string
  df_size :: nat

record CreatePolyglotResult =
  cp_blob :: bytes
  cp_blob_type :: string
  newContainerName :: string

section \<open>Creation\<close>

text \<open>\<open>s.lastIndexOf('.')\<close> on a string, \<open>None\<close> for \<open>-1\<close>.\<close>

fun lastIndexOfChar :: "string \<Rightarrow> char \<Rightarrow> nat option" where
  "lastIndexOfChar [] c = None"
| "lastIndexOfChar (x # xs) c =
     (case lastIndexOfChar xs c of
        Some i \<Rightarrow> Some (Suc i)
      | None \<Rightarrow> (if x = c then Some 0 else None))"

text \<open>
  \<open>name.substring(0, name.lastIndexOf('.')) || name\<close>: \<open>substring(0, -1)\<close> is the empty
  string, and the empty string is falsy.
\<close>

definition originalNameNoExt :: "string \<Rightarrow> string" where
  "originalNameNoExt nm =
     (let stem = (case lastIndexOfChar nm CHR ''.'' of None \<Rightarrow> [] | Some i \<Rightarrow> take i nm)
      in if stem = [] then nm else stem)"

definition isConvertibleText :: "File \<Rightarrow> bool" where
  "isConvertibleText f = (take 5 (file_type f) = ''text/'')"

definition isPoorImageContainer :: "File \<Rightarrow> bool" where
  "isPoorImageContainer f = (file_type f \<in> set [''image/bmp'', ''image/webp'', ''image/tiff''])"

text \<open>
  The first half of \<open>createPolyglot\<close>: the container that is really used, after the
  optional conversion to PNG. A rejected conversion rejects the whole call (\<open>None\<close>).
\<close>

definition finalContainerFile :: "platform \<Rightarrow> File \<Rightarrow> bool \<Rightarrow> File option" where
  "finalContainerFile P containerFile autoConvert =
     (if autoConvert \<and> (isConvertibleText containerFile \<or> isPoorImageContainer containerFile)
      then
        (let newName = originalNameNoExt (file_name containerFile) @ ''.png'';
             converted =
               (if isConvertibleText containerFile
                then convertTextToPng P (text_decode P (file_bytes containerFile))
                else convertImage P containerFile ''image/png'')
         in case converted of
              None \<Rightarrow> None
            | Some png \<Rightarrow> Some \<lparr>file_name = newName, file_type = ''image/png'', file_bytes = png\<rparr>)
      else Some containerFile)"

text \<open>The metadata object \<open>{name, type}\<close>, with the default for an empty media type.\<close>

definition metadata :: "File \<Rightarrow> json" where
  "metadata hiddenFile =
     JObject [(''name'', JString (file_name hiddenFile)),
              (''type'', JString (if file_type hiddenFile = [] then ''application/octet-stream''
                                  else file_type hiddenFile))]"

definition metadataBuffer :: "platform \<Rightarrow> File \<Rightarrow> bytes" where
  "metadataBuffer P hiddenFile = text_encode P (json_stringify P (metadata hiddenFile))"

text \<open>
  The second half of \<open>createPolyglot\<close>: container, 4-byte length, metadata, hidden bytes,
  copied one after the other into the combined array.
\<close>

definition createPolyglot :: "platform \<Rightarrow> File \<Rightarrow> File \<Rightarrow> bool \<Rightarrow> CreatePolyglotResult option" where
  "createPolyglot P containerFile hiddenFile autoConvert =
     (case finalContainerFile P containerFile autoConvert of
        None \<Rightarrow> None
      | Some fc \<Rightarrow>
          (let containerBuffer = file_bytes fc;
               hiddenBuffer = file_bytes hiddenFile;
               metaBuf = metadataBuffer P hiddenFile;
               metadataLength = length metaBuf;
               lengthBuffer = setUint32 metadataLength
           in Some \<lparr>cp_blob = containerBuffer @ lengthBuffer @ metaBuf @ hiddenBuffer,
                     cp_blob_type = file_type fc,
                     newContainerName = file_name fc\<rparr>))"

section \<open>Decoding: signatures and the payload classifier\<close>

text \<open>
  \<open>findSequence(haystack, needle, start)\<close>: the first index \<open>i \<ge> start\<close> with
  \<open>i \<le> haystack.length - needle.length\<close> at which every byte of the needle matches.
  The bound is computed in the integers, as the source's subtraction is.
\<close>

function findSequence :: "bytes \<Rightarrow> bytes \<Rightarrow> nat \<Rightarrow> nat option" where
  "findSequence haystack needle i =
     (if int i \<le> int (length haystack) - int (length needle)
      then (if take (length needle) (drop i haystack) = needle then Some i
            else findSequence haystack needle (Suc i))
      else None)"
  by pat_completeness auto
termination
  by (relation "measure (\<lambda>(h, n, i). Suc (length h) - i)") auto

record sigEntry =
  sig :: bytes
  mime :: string
  ext :: string

text \<open>The signature table, in the order in which \<open>for ... in\<close> visits its keys.\<close>

definition signatures :: "(string \<times> sigEntry) list" where
  "signatures =
     [(''PNG'', \<lparr>sig = [0x89, 0x50, 0x4E, 0x47, 0x0D, 0x0A, 0x1A, 0x0A], mime = ''image/png'', ext = ''png''\<rparr>),
      (''JPEG'', \<lparr>sig = [0xFF, 0xD8, 0xFF], mime = ''image/jpeg'', ext = ''jpg''\<rparr>),
      (''GIF87a'', \<lparr>sig = [0x47, 0x49, 0x46, 0x38, 0x37, 0x61], mime = ''image/gif'', ext = ''gif''\<rparr>),
      (''GIF89a'', \<lparr>sig = [0x47, 0x49, 0x46, 0x38, 0x39, 0x61], mime = ''image/gif'', ext = ''gif''\<rparr>),
      (''ZIP'', \<lparr>sig = [0x50, 0x4B, 0x03, 0x04], mime = ''application/zip'', ext = ''zip''\<rparr>),
      (''PDF'', \<lparr>sig = [0x25, 0x50, 0x44, 0x46], mime = ''application/pdf'', ext = ''pdf''\<rparr>),
      (''EXE'', \<lparr>sig = [0x4D, 0x5A], mime = ''application/vnd.microsoft.portable-executable'', ext = ''exe''\<rparr>),
      (''APK'', \<lparr>sig = [0x50, 0x4B, 0x03, 0x04], mime = ''application/vnd.android.package-archive'', ext = ''apk''\<rparr>)]"

text \<open>
  The body of the \<open>try\<close> block of \<open>processPayload\<close>: \<open>Inl\<close> is an exception thrown inside
  it, \<open>Inr None\<close> is reaching the end of the block without returning.
\<close>

definition envelopeTry :: "platform \<Rightarrow> bytes \<Rightarrow> js_error + DecodedFile option" where
  "envelopeTry P payload =
     (case getUint32 payload 0 of
        None \<Rightarrow> Inl RangeError
      | Some metadataLength \<Rightarrow>
          if length payload \<ge> 4 + metadataLength \<and> metadataLength > 0
             \<and> metadataLength < length payload
          then
            (let metaBuf = take metadataLength (drop 4 payload);
                 metadataString = text_decode P metaBuf
             in case json_parse P metadataString of
                  None \<Rightarrow> Inl SyntaxError
                | Some md \<Rightarrow>
                    (let fileData = drop (4 + metadataLength) payload
                     in case getProp md ''name'' of
                          Inl e \<Rightarrow> Inl e
                        | Inr nm \<Rightarrow>
                            (case asString nm of
                               None \<Rightarrow> Inr None
                             | Some name \<Rightarrow>
                                 (case getProp md ''type'' of
                                    Inl e \<Rightarrow> Inl e
                                  | Inr ty \<Rightarrow>
                                      (case asString ty of
                                         None \<Rightarrow> Inr None
                                       | Some type \<Rightarrow>
                                           if length fileData > 0
                                           then Inr (Some \<lparr>df_blob = fileData, df_name = name,
                                                           df_type = type, df_size = length fileData\<rparr>)
                                           else Inr None)))))
          else Inr None)"

text \<open>
  The first tier of \<open>processPayload\<close>: the guarded \<open>try\<close> with its \<open>catch\<close>, which logs a
  warning and falls through.
\<close>

definition envelopeTier :: "platform \<Rightarrow> bytes \<Rightarrow> DecodedFile option" where
  "envelopeTier P payload =
     (if length payload > 4
      then (case envelopeTry P payload of Inl e \<Rightarrow> None | Inr r \<Rightarrow> r)
      else None)"

text \<open>The loop over the signature table inside \<open>processPayload\<close>.\<close>

fun scanSignatures :: "(string \<times> sigEntry) list \<Rightarrow> bytes \<Rightarrow> DecodedFile option" where
  "scanSignatures [] payload = None"
| "scanSignatures ((k, e) # es) payload =
     (case findSequence payload (sig e) 0 of
        Some startIndex \<Rightarrow>
          if startIndex < 16
          then (let fileData = drop startIndex payload
                in Some \<lparr>df_blob = fileData, df_name = ''hidden-file.'' @ ext e,
                         df_type = mime e, df_size = length fileData\<rparr>)
          else scanSignatures es payload
      | None \<Rightarrow> scanSignatures es payload)"

text \<open>The second and third tier: signature detection, then the generic binary file.\<close>

definition signatureFallback :: "bytes \<Rightarrow> DecodedFile option" where
  "signatureFallback payload =
     (if length payload > 0
      then (case scanSignatures signatures payload of
              Some f \<Rightarrow> Some f
            | None \<Rightarrow> Some \<lparr>df_blob = payload, df_name = ''hidden-file.dat'',
                            df_type = ''application/octet-stream'', df_size = length payload\<rparr>)
      else None)"

definition processPayload :: "platform \<Rightarrow> bytes \<Rightarrow> DecodedFile option" where
  "processPayload P payload =
     (case envelopeTier P payload of
        Some f \<Rightarrow> Some f
      | None \<Rightarrow> signatureFallback payload)"

section \<open>Decoding: boundary locators\<close>

text \<open>The local helper \<open>startsWith\<close> of \<open>decodePolyglot\<close>.\<close>

definition startsWith :: "bytes \<Rightarrow> bytes \<Rightarrow> bool" where
  "startsWith arr prefix = (\<not> length arr < length prefix \<and> take (length prefix) arr = prefix)"

text \<open>
  The \<open>while\<close> loop of the JPEG branch: \<open>lastKnownIndex\<close> and \<open>searchOffset\<close> are the loop
  state, the result is the final \<open>lastKnownIndex\<close>.
\<close>

function jpegScan :: "bytes \<Rightarrow> nat option \<Rightarrow> nat \<Rightarrow> nat option" where
  "jpegScan data lastKnownIndex searchOffset =
     (if searchOffset < length data
      then (case findSequence data [0xFF, 0xD9] searchOffset of
              Some tempIndex \<Rightarrow> jpegScan data (Some tempIndex) (tempIndex + 1)
            | None \<Rightarrow> lastKnownIndex)
      else lastKnownIndex)"
  by pat_completeness auto
termination
proof (relation "measure (\<lambda>(d, l, off). length d - off)")
  show "wf (measure (\<lambda>(d, l, off). length d - off))" by simp
next
  fix data :: bytes and lastKnownIndex :: "nat option" and searchOffset x2
  assume lt: "searchOffset < length data"
    and f: "findSequence data [0xFF, 0xD9] searchOffset = Some x2"
  have "findSequence h n s = Some i \<Longrightarrow> s \<le> i" for h n s i
  proof (induction h n s rule: findSequence.induct)
    case (1 h n s)
    then show ?case
      by (subst (asm) (2) findSequence.simps) (auto split: if_splits dest: Suc_leD)
  qed
  from this [OF f] lt
  show "((data, Some x2, x2 + 1), (data, lastKnownIndex, searchOffset))
          \<in> measure (\<lambda>(d, l, off). length d - off)"
    by simp
qed

text \<open>
  \<open>Uint8Array.prototype.lastIndexOf(x, fromIndex)\<close>: the search starts at
  \<open>min(fromIndex, length - 1)\<close>, or at \<open>length + fromIndex\<close> for a negative \<open>fromIndex\<close>,
  and walks down to index 0.
\<close>

fun lastIndexDown :: "bytes \<Rightarrow> byte \<Rightarrow> nat \<Rightarrow> nat option" where
  "lastIndexDown d x 0 = (if d ! 0 = x then Some 0 else None)"
| "lastIndexDown d x (Suc k) = (if d ! Suc k = x then Some (Suc k) else lastIndexDown d x k)"

definition lastIndexOf :: "bytes \<Rightarrow> byte \<Rightarrow> int \<Rightarrow> nat option" where
  "lastIndexOf d x fromIndex =
     (if length d = 0 then None
      else (let k = (if fromIndex \<ge> 0 then min fromIndex (int (length d) - 1)
                     else int (length d) + fromIndex)
            in if k < 0 then None else lastIndexDown d x (nat k)))"

text \<open>
  The marker dispatch of \<open>decodePolyglot\<close>: the value of \<open>splitIndex\<close> after the
  PNG / JPEG / GIF branches, \<open>None\<close> for \<open>-1\<close>.
\<close>

definition findSplitIndex :: "bytes \<Rightarrow> nat option" where
  "findSplitIndex data =
     (if startsWith data [0x89, 0x50, 0x4E, 0x47]
      then map_option (\<lambda>eofIndex. eofIndex + 12)
             (findSequence data
                [0x00, 0x00, 0x00, 0x00, 0x49, 0x45, 0x4E, 0x44, 0xAE, 0x42, 0x60, 0x82] 0)
      else if startsWith data [0xFF, 0xD8, 0xFF]
      then map_option (\<lambda>lastKnownIndex. lastKnownIndex + 2) (jpegScan data None 0)
      else if startsWith data [0x47, 0x49, 0x46]
      then map_option (\<lambda>eofIndex. eofIndex + 1)
             (lastIndexOf data 0x3B (int (length data) - 2))
      else None)"

section \<open>Decoding: the M4A box walker\<close>

text \<open>
  The test \<open>/^[a-zA-Z0-9\s]{4}$/\<close> on the UTF-8 decoding of the four tag bytes. Four bytes
  decode to four characters only when every byte stands for one character, and a
  non-ASCII byte then decodes to U+FFFD, which the class rejects; so the test holds
  exactly when each of the four bytes is an ASCII letter, digit or white space
  (tab, line feed, vertical tab, form feed, carriage return, space).
\<close>

definition isBoxTypeByte :: "byte \<Rightarrow> bool" where
  "isBoxTypeByte b =
     ((0x61 \<le> b \<and> b \<le> 0x7A) \<or> (0x41 \<le> b \<and> b \<le> 0x5A) \<or> (0x30 \<le> b \<and> b \<le> 0x39)
      \<or> b \<in> set [0x09, 0x0A, 0x0B, 0x0C, 0x0D, 0x20])"

definition validBoxType :: "bytes \<Rightarrow> bool" where
  "validBoxType boxType = (length boxType = 4 \<and> list_all isBoxTypeByte boxType)"

text \<open>
  The \<open>while\<close> loop of \<open>decodeM4AContainer\<close>, from the state \<open>offset\<close>; the result is the
  value of \<open>offset\<close> when the loop is left. A \<open>RangeError\<close> of \<open>getUint32\<close> is caught by
  the surrounding \<open>try\<close>, which keeps the current \<open>offset\<close>. The loop need not
  terminate, so the function is partial: \<open>None\<close> is a run that never leaves the loop.
\<close>

partial_function (option) m4aWalk :: "bytes \<Rightarrow> nat \<Rightarrow> nat option" where
  "m4aWalk data offset =
     (if offset + 8 \<le> length data
      then
        (case getUint32 data offset of
           None \<Rightarrow> Some offset
         | Some boxSize \<Rightarrow>
             if \<not> validBoxType (take 4 (drop (offset + 4) data)) then Some offset
             else if boxSize = 1 then
               (if offset + 16 > length data then Some offset
                else
                  (case getUint32 data (offset + 8) of
                     None \<Rightarrow> Some offset
                   | Some sizeHigh \<Rightarrow>
                       if sizeHigh > 0 then Some offset
                       else
                         (case getUint32 data (offset + 12) of
                            None \<Rightarrow> Some offset
                          | Some boxSize64 \<Rightarrow>
                              if offset + boxSize64 > length data then Some offset
                              else m4aWalk data (offset + boxSize64))))
             else if boxSize = 0 then Some (length data)
             else if offset + boxSize > length data then Some offset
             else m4aWalk data (offset + boxSize))
      else Some offset)"

datatype executableType = Exe | Apk

text \<open>\<open>expectedType.toUpperCase()\<close>.\<close>

fun signatureKey :: "executableType \<Rightarrow> string" where
  "signatureKey Exe = ''EXE''"
| "signatureKey Apk = ''APK''"

text \<open>
  \<open>decodeM4AContainer\<close>: the outer \<open>None\<close> is a walk that never ends, \<open>Some None\<close> is the
  result \<open>null\<close>.
\<close>

definition decodeM4AContainer :: "bytes \<Rightarrow> executableType \<Rightarrow> DecodedFile option option" where
  "decodeM4AContainer data expectedType =
     (case m4aWalk data 0 of
        None \<Rightarrow> None
      | Some splitIndex \<Rightarrow>
          Some
            (if splitIndex > 0 \<and> splitIndex < length data
             then
               (let payload = drop splitIndex data
                in case map_of signatures (signatureKey expectedType) of
                     None \<Rightarrow> None
                   | Some e \<Rightarrow>
                       if findSequence payload (sig e) 0 = Some 0
                       then Some \<lparr>df_blob = payload, df_name = ''hidden.'' @ ext e,
                                  df_type = mime e, df_size = length payload\<rparr>
                       else None)
             else None))"

section \<open>Decoding: orchestration\<close>

record DecodeOptions =
  executableType :: "executableType option"

text \<open>\<open>String.prototype.toLowerCase\<close> on the ASCII letters, and \<open>endsWith\<close>.\<close>

definition toLowerCase :: "string \<Rightarrow> string" where
  "toLowerCase s =
     map (\<lambda>c. if 65 \<le> (of_char c :: nat) \<and> (of_char c :: nat) \<le> 90
               then char_of (of_char c + 32 :: nat) else c) s"

definition endsWith :: "string \<Rightarrow> string \<Rightarrow> bool" where
  "endsWith s suffix =
     (length suffix \<le> length s \<and> drop (length s - length suffix) s = suffix)"

definition isM4A :: "File \<Rightarrow> bool" where
  "isM4A f = (endsWith (toLowerCase (file_name f)) ''.m4a'' \<or> file_type f = ''audio/mp4'')"

text \<open>
  The tail of \<open>decodePolyglot\<close>, after the M4A attempt: marker dispatch, slice, classify.
\<close>

definition decodeByMarkers :: "platform \<Rightarrow> bytes \<Rightarrow> DecodedFile option" where
  "decodeByMarkers P data =
     (case findSplitIndex data of
        None \<Rightarrow> None
      | Some splitIndex \<Rightarrow>
          if splitIndex < length data then processPayload P (drop splitIndex data) else None)"

text \<open>
  \<open>decodePolyglot\<close>: the outer \<open>None\<close> is a call that never returns (the box walker does
  not leave its loop), \<open>Some None\<close> is the result \<open>null\<close>.
\<close>

definition decodePolyglot :: "platform \<Rightarrow> File \<Rightarrow> DecodeOptions option \<Rightarrow> DecodedFile option option" where
  "decodePolyglot P polyglotFile options =
     (let data = file_bytes polyglotFile;
          hint = (case options of None \<Rightarrow> None | Some opts \<Rightarrow> executableType opts)
      in case (if isM4A polyglotFile then hint else None) of
           Some t \<Rightarrow>
             (case decodeM4AContainer data t of
                None \<Rightarrow> None
              | Some (Some result) \<Rightarrow> Some (Some result)
              | Some None \<Rightarrow> Some (decodeByMarkers P data))
         | None \<Rightarrow> Some (decodeByMarkers P data))"

text \<open>The comparisons \<open>x > 0\<close> and \<open>x < data.length\<close> on a parsed number.\<close>

fun jsGreater0 :: "jsnumber \<Rightarrow> bool" where
  "jsGreater0 (Finite q) = (0 < q)"
| "jsGreater0 PosInfinity = True"
| "jsGreater0 NegInfinity = False"

fun jsLessLength :: "jsnumber \<Rightarrow> nat \<Rightarrow> bool" where
  "jsLessLength (Finite q) n = (q < of_nat n)"
| "jsLessLength PosInfinity n = False"
| "jsLessLength NegInfinity n = True"

text \<open>
  \<open>data.slice(start)\<close> with a number for \<open>start\<close>: the number is truncated towards zero
  (\<open>ToIntegerOrInfinity\<close>); a negative start counts from the end and stops at 0, a start
  beyond the end gives the empty array.
\<close>

fun sliceFrom :: "bytes \<Rightarrow> jsnumber \<Rightarrow> bytes" where
  "sliceFrom data (Finite q) =
     (let relativeStart = (if q < 0 then \<lceil>q\<rceil> else \<lfloor>q\<rfloor>)
      in if relativeStart < 0 then drop (nat (max (int (length data) + relativeStart) 0)) data
         else drop (nat (min relativeStart (int (length data)))) data)"
| "sliceFrom data PosInfinity = []"
| "sliceFrom data NegInfinity = data"

text \<open>
  \<open>decodePolyglotWithAI\<close>, given what the oracle call produced: \<open>None\<close> when the request
  is rejected, else the text of the response. Whatever is thrown inside the \<open>try\<close> is
  caught and rethrown as one error. The prompt sent to the oracle does not enter the
  result and is left out.
\<close>

definition decodePolyglotWithAI :: "platform \<Rightarrow> File \<Rightarrow> string option \<Rightarrow> js_error + DecodedFile option" where
  "decodePolyglotWithAI P polyglotFile response =
     (let data = file_bytes polyglotFile
      in case response of
           None \<Rightarrow> Inl OracleFailed
         | Some text \<Rightarrow>
             (case json_parse P text of
                None \<Rightarrow> Inl OracleFailed
              | Some jsonResponse \<Rightarrow>
                  (case getProp jsonResponse ''splitIndex'' of
                     Inl e \<Rightarrow> Inl OracleFailed
                   | Inr v \<Rightarrow>
                       (case asNumber v of
                          None \<Rightarrow> Inr None
                        | Some splitIndex \<Rightarrow>
                            if jsGreater0 splitIndex \<and> jsLessLength splitIndex (length data)
                            then Inr (processPayload P (sliceFrom data splitIndex))
                            else Inr None))))"

section \<open>Notions used to state the properties\<close>

text \<open>The needle occurs in the haystack at index \<open>i\<close>.\<close>

definition occursAt :: "bytes \<Rightarrow> bytes \<Rightarrow> nat \<Rightarrow> bool" where
  "occursAt h n i = (i + length n \<le> length h \<and> take (length n) (drop i h) = n)"

text \<open>
  Encoding followed by decoding through the envelope path: \<open>processPayload\<close> applied to
  the bytes of the blob that follow the container. The outer \<open>None\<close> is a rejected
  creation.
\<close>

definition encodeThenDecode :: "platform \<Rightarrow> File \<Rightarrow> File \<Rightarrow> bool \<Rightarrow> DecodedFile option option" where
  "encodeThenDecode P containerFile hiddenFile autoConvert =
     (case finalContainerFile P containerFile autoConvert of
        None \<Rightarrow> None
      | Some fc \<Rightarrow>
          (case createPolyglot P containerFile hiddenFile autoConvert of
             None \<Rightarrow> None
           | Some r \<Rightarrow> Some (processPayload P (drop (length (file_bytes fc)) (cp_blob r)))))"

text \<open>
  The size that the box header at \<open>offset\<close> declares, when the walker takes the bytes
  there for a box with a size of its own: the tag passes the test, and the size is the
  32-bit field, or the 64-bit extended size when the field is 1. A size field 0 (the box
  extends to the end of the file) declares no size.
\<close>

definition declaredSize :: "bytes \<Rightarrow> nat \<Rightarrow> nat option" where
  "declaredSize d offset =
     (if offset + 8 \<le> length d \<and> validBoxType (take 4 (drop (offset + 4) d))
      then (case getUint32 d offset of
              None \<Rightarrow> None
            | Some boxSize \<Rightarrow>
                if boxSize = 1
                then (case (getUint32 d (offset + 8), getUint32 d (offset + 12)) of
                        (Some sizeHigh, Some sizeLow) \<Rightarrow> Some (sizeHigh * 2 ^ 32 + sizeLow)
                      | _ \<Rightarrow> None)
                else if boxSize = 0 then None
                else Some boxSize)
      else None)"

text \<open>
  The offsets at which the walker arrives: it starts at 0, and from a box whose declared
  size fits in 32 bits and does not pass the end of the buffer it arrives at the next box.
\<close>

inductive walkReaches :: "bytes \<Rightarrow> nat \<Rightarrow> bool" for d :: bytes where
  start: "walkReaches d 0"
| advance: "walkReaches d offset \<Longrightarrow> declaredSize d offset = Some s \<Longrightarrow> s < 2 ^ 32
            \<Longrightarrow> offset + s \<le> length d \<Longrightarrow> walkReaches d (offset + s)"

code_pred walkReaches .

text \<open>A box with a 32-bit size: size field, tag, body.\<close>

definition m4aBox :: "bytes \<Rightarrow> bytes \<Rightarrow> bytes" where
  "m4aBox tag body = setUint32 (8 + length body) @ tag @ body"

section \<open>A stand-in platform\<close>

text \<open>
  A small stand-in for the platform, used to run the model on sample inputs. It writes and
  reads the metadata object \<open>{"name":"...","type":"..."}\<close> for strings without quotes,
  backslashes or control characters, and encodes text one byte per character.
\<close>

definition asciiStringify :: "json \<Rightarrow> string" where
  "asciiStringify v =
     (case v of
        JObject [(k1, JString v1), (k2, JString v2)] \<Rightarrow>
          [CHR ''{'', CHR 0x22] @ k1 @ [CHR 0x22, CHR '':'', CHR 0x22] @ v1
          @ [CHR 0x22, CHR '','', CHR 0x22] @ k2 @ [CHR 0x22, CHR '':'', CHR 0x22] @ v2
          @ [CHR 0x22, CHR ''}'']
      | _ \<Rightarrow> ''null'')"

definition asciiParse :: "string \<Rightarrow> json option" where
  "asciiParse s =
     (let q = CHR 0x22;
          k1 = takeWhile (\<lambda>c. c \<noteq> q) (drop 2 s);
          r1 = drop (2 + length k1) s;
          v1 = takeWhile (\<lambda>c. c \<noteq> q) (drop 3 r1);
          r2 = drop (3 + length v1) r1;
          k2 = takeWhile (\<lambda>c. c \<noteq> q) (drop 3 r2);
          r3 = drop (3 + length k2) r2;
          v2 = takeWhile (\<lambda>c. c \<noteq> q) (drop 3 r3);
          r4 = drop (3 + length v2) r3
      in if take 2 s = [CHR ''{'', q] \<and> take 3 r1 = [q, CHR '':'', q]
            \<and> take 3 r2 = [q, CHR '','', q] \<and> take 3 r3 = [q, CHR '':'', q]
            \<and> r4 = [q, CHR ''}'']
         then Some (JObject [(k1, JString v1), (k2, JString v2)])
         else None)"

definition asciiPlatform :: platform where
  "asciiPlatform =
     \<lparr>json_stringify = asciiStringify,
      json_parse = asciiParse,
      text_encode = map (\<lambda>c. of_nat (of_char c)),
      text_decode = map (\<lambda>b. char_of (unat b)),
      convertTextToPng = (\<lambda>t. None),
      convertImage = (\<lambda>f t. None)\<rparr>"

text \<open>
  Oracle replies \<open>{"splitIndex":<number>}\<close>, and the stand-in platform extended to read
  six of them: the numbers 4, 8, 0.5, 0 and -1, and the string \<open>"4"\<close>.
\<close>

definition oracleReply :: "string \<Rightarrow> string" where
  "oracleReply num = [CHR ''{'', CHR 0x22] @ ''splitIndex'' @ [CHR 0x22, CHR '':''] @ num @ ''}''"

definition oracleParse :: "string \<Rightarrow> json option" where
  "oracleParse t =
     (if t = oracleReply ''4'' then Some (JObject [(''splitIndex'', JNumber (Finite 4))])
      else if t = oracleReply ''8'' then Some (JObject [(''splitIndex'', JNumber (Finite 8))])
      else if t = oracleReply ''0.5'' then Some (JObject [(''splitIndex'', JNumber (Finite (1 / 2)))])
      else if t = oracleReply ''0'' then Some (JObject [(''splitIndex'', JNumber (Finite 0))])
      else if t = oracleReply ''-1'' then Some (JObject [(''splitIndex'', JNumber (Finite (- 1)))])
      else if t = oracleReply ([CHR 0x22] @ ''4'' @ [CHR 0x22])
        then Some (JObject [(''splitIndex'', JString ''4'')])
      else asciiParse t)"

definition oraclePlatform :: platform where
  "oraclePlatform = asciiPlatform\<lparr>json_parse := oracleParse\<rparr>"

section \<open>Sample inputs\<close>

text \<open>The PNG signature.\<close>

definition pngMagic :: bytes where
  "pngMagic = [0x89, 0x50, 0x4E, 0x47, 0x0D, 0x0A, 0x1A, 0x0A]"

text \<open>A small container and three hidden files: with a media type, without one, and without bytes.\<close>

definition containerDemo :: File where
  "containerDemo = \<lparr>file_name = ''c.gif'', file_type = ''image/gif'',
                     file_bytes = [0x47, 0x49, 0x46, 0x3B]\<rparr>"

definition hiddenDemo :: File where
  "hiddenDemo = \<lparr>file_name = ''a.txt'', file_type = ''text/plain'', file_bytes = [0x68, 0x69]\<rparr>"

definition hiddenNoType :: File where
  "hiddenNoType = \<lparr>file_name = ''a.txt'', file_type = [], file_bytes = [0x68, 0x69]\<rparr>"

definition hiddenEmpty :: File where
  "hiddenEmpty = \<lparr>file_name = ''a.txt'', file_type = ''text/plain'', file_bytes = []\<rparr>"

text \<open>
  A JPEG-like buffer with the end marker at 3 and 6 inside the data and at 9 as the last
  occurrence, and a GIF-like buffer with the trailer byte at 3 and as the final byte.
\<close>

definition jpegDemo :: bytes where
  "jpegDemo = [0xFF, 0xD8, 0xFF, 0xFF, 0xD9, 0x00, 0xFF, 0xD9, 0x00, 0xFF, 0xD9, 0x01, 0x02]"

definition gifDemo :: bytes where
  "gifDemo = [0x47, 0x49, 0x46, 0x3B, 0x00, 0x3B]"

text \<open>The GIF-like buffer as a file.\<close>

definition gifFileDemo :: File where
  "gifFileDemo = \<lparr>file_name = ''c.gif'', file_type = ''image/gif'', file_bytes = gifDemo\<rparr>"

text \<open>A file that \<open>decodePolyglot\<close> takes for an M4A container.\<close>

definition m4aFileDemo :: "bytes \<Rightarrow> File" where
  "m4aFileDemo d = \<lparr>file_name = ''song.m4a'', file_type = ''audio/mp4'', file_bytes = d\<rparr>"

text \<open>
  One 16-byte box: size field 1, tag \<open>ftyp\<close>, and a 64-bit extended size whose high and
  low words are both zero.
\<close>

definition loopDemo :: bytes where
  "loopDemo = [0x00, 0x00, 0x00, 0x01, 0x66, 0x74, 0x79, 0x70,
               0x00, 0x00, 0x00, 0x00, 0x00, 0x00, 0x00, 0x00]"

text \<open>
  A box of size 8 followed by a box that declares 32 bytes, of which 12 are present.
\<close>

definition truncatedDemo :: bytes where
  "truncatedDemo = [0x00, 0x00, 0x00, 0x08, 0x66, 0x74, 0x79, 0x70,
                    0x00, 0x00, 0x00, 0x20, 0x6D, 0x6F, 0x6F, 0x76, 0x01, 0x02, 0x03, 0x04]"

text \<open>
  Three boxes of sizes 8, 16 and 8 followed by \<open>4D 5A 90 00\<close>, and one box of size 8
  followed by \<open>4D 5A\<close>.
\<close>

definition exeDemo :: bytes where
  "exeDemo = m4aBox [0x66, 0x74, 0x79, 0x70] [] @ m4aBox [0x6D, 0x6F, 0x6F, 0x76] (replicate 8 0)
             @ m4aBox [0x66, 0x72, 0x65, 0x65] [] @ [0x4D, 0x5A] @ [0x90, 0x00]"

definition m4aDemo :: bytes where
  "m4aDemo = m4aBox [0x66, 0x74, 0x79, 0x70] [] @ [0x4D, 0x5A] @ []"

text \<open>
  Three boxes of sizes 8, 16 and 8 followed by a fourth box whose size field, \<open>4D 5A 00 00\<close>,
  begins with the EXE signature and whose body fills the buffer exactly.
\<close>

definition bigBody :: bytes where
  "bigBody = replicate 1297743864 0"

definition bigDemo :: bytes where
  "bigDemo = m4aBox [0x66, 0x74, 0x79, 0x70] [] @ m4aBox [0x6D, 0x6F, 0x6F, 0x76] (replicate 8 0)
             @ m4aBox [0x66, 0x72, 0x65, 0x65] []
             @ [0x4D, 0x5A] @ [0x00, 0x00, 0x66, 0x72, 0x65, 0x65] @ bigBody"

section \<open>Searching for a byte sequence\<close>

declare findSequence.simps [simp del]

lemma findSequence_Some:
  "findSequence h n s = Some i \<Longrightarrow>
     s \<le> i \<and> occursAt h n i \<and> (\<forall>j. s \<le> j \<and> j < i \<longrightarrow> \<not> occursAt h n j)"
proof (induction h n s rule: findSequence.induct)
  case (1 h n s)
  show ?case
  proof (cases "int s \<le> int (length h) - int (length n)")
    case False
    with "1.prems" show ?thesis by (simp add: findSequence.simps [of h n s])
  next
    case inr: True
    show ?thesis
    proof (cases "take (length n) (drop s h) = n")
      case True
      with inr "1.prems" have "i = s" by (simp add: findSequence.simps [of h n s])
      with True inr show ?thesis by (auto simp: occursAt_def)
    next
      case False
      with inr "1.prems" have "findSequence h n (Suc s) = Some i"
        by (simp add: findSequence.simps [of h n s])
      with "1.IH" inr False
      have ih: "Suc s \<le> i \<and> occursAt h n i \<and> (\<forall>j. Suc s \<le> j \<and> j < i \<longrightarrow> \<not> occursAt h n j)"
        by blast
      have "\<not> occursAt h n s" using False by (simp add: occursAt_def)
      with ih show ?thesis
        by (metis Suc_leI le_neq_implies_less Suc_leD)
    qed
  qed
qed

lemma findSequence_None:
  "findSequence h n s = None \<Longrightarrow> s \<le> j \<Longrightarrow> \<not> occursAt h n j"
proof (induction h n s rule: findSequence.induct)
  case (1 h n s)
  show ?case
  proof (cases "int s \<le> int (length h) - int (length n)")
    case False
    with "1.prems" show ?thesis by (auto simp: occursAt_def)
  next
    case inr: True
    with "1.prems" have ne: "take (length n) (drop s h) \<noteq> n"
      by (auto simp add: findSequence.simps [of h n s] split: if_splits)
    with inr "1.prems" have "findSequence h n (Suc s) = None"
      by (simp add: findSequence.simps [of h n s])
    with "1.IH" inr ne have ih: "Suc s \<le> j \<Longrightarrow> \<not> occursAt h n j" by blast
    show ?thesis
    proof (cases "j = s")
      case True
      with ne show ?thesis by (simp add: occursAt_def)
    next
      case False
      with "1.prems" have "Suc s \<le> j" by simp
      then show ?thesis by (rule ih)
    qed
  qed
qed

lemma findSequence_first:
  assumes "occursAt h n i" "s \<le> i" "\<forall>j. s \<le> j \<and> j < i \<longrightarrow> \<not> occursAt h n j"
  shows "findSequence h n s = Some i"
proof (cases "findSequence h n s")
  case None
  with assms show ?thesis using findSequence_None by blast
next
  case (Some k)
  from findSequence_Some [OF Some] have k: "s \<le> k" "occursAt h n k"
    "\<forall>j. s \<le> j \<and> j < k \<longrightarrow> \<not> occursAt h n j" by auto
  with assms have "k = i" by (meson linorder_neqE_nat)
  with Some show ?thesis by simp
qed

lemma findSequence_window:
  "(\<exists>i<16. occursAt p s i) = (\<exists>i<16. findSequence p s 0 = Some i)"
proof
  assume "\<exists>i<16. occursAt p s i"
  then obtain i where i: "i < 16" "occursAt p s i" by blast
  define k where "k = (LEAST j. occursAt p s j)"
  have k: "occursAt p s k" unfolding k_def using i(2) by (rule LeastI)
  have kle: "k \<le> i" unfolding k_def using i(2) by (rule Least_le)
  have "\<forall>j. 0 \<le> j \<and> j < k \<longrightarrow> \<not> occursAt p s j"
    unfolding k_def using not_less_Least by blast
  with k have "findSequence p s 0 = Some k" by (intro findSequence_first) auto
  with kle i show "\<exists>i<16. findSequence p s 0 = Some i" by auto
next
  assume "\<exists>i<16. findSequence p s 0 = Some i"
  then show "\<exists>i<16. occursAt p s i" using findSequence_Some by blast
qed

lemma findSequence_Least:
  assumes "findSequence p s 0 = Some i"
  shows "(LEAST j. occursAt p s j) = i"
proof (rule Least_equality)
  from findSequence_Some [OF assms] show "occursAt p s i" by simp
next
  fix y assume "occursAt p s y"
  with findSequence_Some [OF assms] show "i \<le> y" by (meson not_le_imp_less le0)
qed

lemma scanSignatures_find:
  "scanSignatures tbl p =
     map_option (\<lambda>e. \<lparr>df_blob = drop (LEAST i. occursAt p (sig e) i) p,
                       df_name = ''hidden-file.'' @ ext e, df_type = mime e,
                       df_size = length p - (LEAST i. occursAt p (sig e) i)\<rparr>)
       (find (\<lambda>e. \<exists>i<16. occursAt p (sig e) i) (map snd tbl))"
proof -
  define Q where "Q = (\<lambda>e::sigEntry. \<exists>i<16. occursAt p (sig e) i)"
  define F where "F = (\<lambda>e::sigEntry. \<lparr>df_blob = drop (LEAST i. occursAt p (sig e) i) p,
                       df_name = ''hidden-file.'' @ ext e, df_type = mime e,
                       df_size = length p - (LEAST i. occursAt p (sig e) i)\<rparr>)"
  have "scanSignatures tbl p = map_option F (find Q (map snd tbl))"
  proof (induction tbl)
    case Nil
    show ?case by simp
  next
    case (Cons ke tbl)
    obtain k e where ke: "ke = (k, e)" by (cases ke)
    show ?case
    proof (cases "findSequence p (sig e) 0")
      case None
      then have "\<not> Q e" by (simp add: Q_def findSequence_window)
      with None Cons.IH ke show ?thesis by simp
    next
      case (Some i)
      show ?thesis
      proof (cases "i < 16")
        case True
        with Some have "Q e" by (auto simp: Q_def findSequence_window)
        with Some True ke show ?thesis
          by (simp add: F_def findSequence_Least [OF Some])
      next
        case False
        with Some have "\<not> Q e" by (simp add: Q_def findSequence_window)
        with Some False Cons.IH ke show ?thesis by simp
      qed
    qed
  qed
  then show ?thesis by (simp add: Q_def F_def)
qed

section \<open>The envelope bound check\<close>

text \<open>
  C2. A payload whose leading 4-byte big-endian length field \<open>N\<close> is 0 or exceeds the bytes
  that remain after the field is rejected by the envelope tier: the \<open>try\<close> block ends
  without a result and without throwing, and \<open>processPayload\<close> gives what the signature
  and generic tiers give.
\<close>

theorem envelope_bound_check:
  assumes "getUint32 payload 0 = Some N" and "N = 0 \<or> N > length payload - 4"
  shows "envelopeTry P payload = Inr None \<and> envelopeTier P payload = None
         \<and> processPayload P payload = signatureFallback payload"
proof -
  from assms(1) have "4 \<le> length payload" by (simp add: getUint32_def split: if_splits)
  with assms have t: "envelopeTry P payload = Inr None"
    by (auto simp: envelopeTry_def)
  then have "envelopeTier P payload = None" by (simp add: envelopeTier_def)
  with t show ?thesis by (simp add: processPayload_def)
qed

theorem envelope_bound_check_witness:
  "getUint32 [0, 0, 0, 9, 1, 2] 0 = Some 9 \<and> (9 = (0::nat) \<or> 9 > length [0, 0, 0, 9, 1, 2 :: byte] - 4)
   \<and> envelopeTry asciiPlatform [0, 0, 0, 9, 1, 2] = Inr None
   \<and> envelopeTier asciiPlatform [0, 0, 0, 9, 1, 2] = None
   \<and> processPayload asciiPlatform [0, 0, 0, 9, 1, 2] = signatureFallback [0, 0, 0, 9, 1, 2]"
proof -
  have g: "getUint32 [0, 0, 0, 9, 1, 2] 0 = Some 9" by (simp add: getUint32_def)
  have b: "9 = (0::nat) \<or> 9 > length [0, 0, 0, 9, 1, 2 :: byte] - 4" by simp
  from envelope_bound_check [OF g b, of asciiPlatform] g b show ?thesis by blast
qed

section \<open>The signature window and the generic fallback\<close>

lemma zero_padded_envelope:
  "4 \<le> n \<Longrightarrow> envelopeTier P (replicate n 0 @ rest) = None"
  by (simp add: envelopeTier_def envelopeTry_def getUint32_def nth_append)

lemma occursAt_first_byte:
  "occursAt p s i \<Longrightarrow> s \<noteq> [] \<Longrightarrow> p ! i = hd s"
proof -
  assume o: "occursAt p s i" and ne: "s \<noteq> []"
  then have "i < length p" by (cases s) (auto simp: occursAt_def)
  then have "p ! i = hd (drop i p)" by (simp add: hd_drop_conv_nth)
  also have "\<dots> = hd (take (length s) (drop i p))" using ne by (cases s) auto
  also have "\<dots> = hd s" using o by (simp add: occursAt_def)
  finally show ?thesis .
qed

lemma no_sig_in_zeros:
  assumes "i < n" "(k, e) \<in> set signatures"
  shows "\<not> occursAt (replicate n 0 @ rest) (sig e) i"
proof
  assume o: "occursAt (replicate n 0 @ rest) (sig e) i"
  from assms(2) have "sig e \<noteq> [] \<and> hd (sig e) \<noteq> 0" by (auto simp: signatures_def)
  with occursAt_first_byte [OF o] assms(1) show False by (simp add: nth_append)
qed

text \<open>
  C9. When the envelope tier yields nothing, \<open>processPayload\<close> returns: nothing for the
  empty payload; else, for the first entry of the signature table whose magic occurs at
  an offset below 16, the payload sliced from the first occurrence of that magic, named
  \<open>hidden-file.<ext>\<close> with the entry's MIME type; else the whole payload as
  \<open>hidden-file.dat\<close> of type \<open>application/octet-stream\<close>.
\<close>

theorem signature_tier_window:
  assumes "envelopeTier P payload = None"
  shows "processPayload P payload =
     (if payload = [] then None
      else case find (\<lambda>e. \<exists>i<16. occursAt payload (sig e) i) (map snd signatures) of
             Some e \<Rightarrow>
               Some \<lparr>df_blob = drop (LEAST i. occursAt payload (sig e) i) payload,
                     df_name = ''hidden-file.'' @ ext e, df_type = mime e,
                     df_size = length payload - (LEAST i. occursAt payload (sig e) i)\<rparr>
           | None \<Rightarrow>
               Some \<lparr>df_blob = payload, df_name = ''hidden-file.dat'',
                     df_type = ''application/octet-stream'', df_size = length payload\<rparr>)"
  using assms
  by (simp add: processPayload_def signatureFallback_def scanSignatures_find
      split: option.splits)

text \<open>
  The PNG magic at payload offset 15 is detected; at offset 16 the payload is returned as
  a generic binary file.
\<close>

theorem signature_tier_window_witness:
  "envelopeTier asciiPlatform (replicate 15 0 @ pngMagic) = None
   \<and> processPayload asciiPlatform (replicate 15 0 @ pngMagic)
       = Some \<lparr>df_blob = pngMagic, df_name = ''hidden-file.png'', df_type = ''image/png'',
               df_size = 8\<rparr>
   \<and> envelopeTier asciiPlatform (replicate 16 0 @ pngMagic) = None
   \<and> processPayload asciiPlatform (replicate 16 0 @ pngMagic)
       = Some \<lparr>df_blob = replicate 16 0 @ pngMagic, df_name = ''hidden-file.dat'',
               df_type = ''application/octet-stream'', df_size = 24\<rparr>"
proof -
  let ?p = "replicate 15 0 @ pngMagic"
  let ?q = "replicate 16 0 @ pngMagic"
  have envp: "envelopeTier asciiPlatform ?p = None" by (rule zero_padded_envelope) simp
  have envq: "envelopeTier asciiPlatform ?q = None" by (rule zero_padded_envelope) simp
  have occ: "occursAt ?p pngMagic 15" by (simp add: occursAt_def pngMagic_def)
  have least: "(LEAST i. occursAt ?p pngMagic i) = 15"
  proof (rule Least_equality)
    show "occursAt ?p pngMagic 15" by (rule occ)
  next
    fix y assume y: "occursAt ?p pngMagic y"
    show "15 \<le> y"
    proof (rule ccontr)
      assume "\<not> 15 \<le> y"
      then have "y < 15" by simp
      from no_sig_in_zeros [OF this,
          of "''PNG''" "\<lparr>sig = pngMagic, mime = ''image/png'', ext = ''png''\<rparr>" pngMagic] y
      show False by (simp add: signatures_def pngMagic_def)
    qed
  qed
  have ex: "\<exists>i<16. occursAt ?p pngMagic i" using occ by (intro exI [of _ 15]) simp
  have fp: "find (\<lambda>e. \<exists>i<16. occursAt ?p (sig e) i) (map snd signatures)
            = Some \<lparr>sig = pngMagic, mime = ''image/png'', ext = ''png''\<rparr>"
    using ex by (simp add: signatures_def pngMagic_def [symmetric])
  have rp: "processPayload asciiPlatform ?p
            = Some \<lparr>df_blob = pngMagic, df_name = ''hidden-file.png'', df_type = ''image/png'',
                    df_size = 8\<rparr>"
    unfolding signature_tier_window [OF envp] fp using least by (simp add: pngMagic_def)
  have "\<forall>e \<in> set (map snd signatures). \<not> (\<exists>i<16. occursAt ?q (sig e) i)"
    using no_sig_in_zeros [of _ 16 _ _ pngMagic] by fastforce
  then have fq: "find (\<lambda>e. \<exists>i<16. occursAt ?q (sig e) i) (map snd signatures) = None"
    by (simp add: find_None_iff)
  have rq: "processPayload asciiPlatform ?q
            = Some \<lparr>df_blob = ?q, df_name = ''hidden-file.dat'',
                    df_type = ''application/octet-stream'', df_size = 24\<rparr>"
    unfolding signature_tier_window [OF envq] fq by (simp add: pngMagic_def)
  from envp rp envq rq show ?thesis by blast
qed

section \<open>The envelope round trip\<close>

lemma be32_arith:
  fixes m :: nat
  shows "m div 16777216 * 16777216 + m div 65536 mod 256 * 65536
         + m div 256 mod 256 * 256 + m mod 256 = m"
proof -
  have d2: "m div 65536 = m div 256 div 256" by (simp add: div_mult2_eq [symmetric])
  have d3: "m div 16777216 = m div 65536 div 256" by (simp add: div_mult2_eq [symmetric])
  have e1: "m = m div 256 * 256 + m mod 256" by simp
  have e2: "m div 256 = m div 65536 * 256 + m div 256 mod 256" unfolding d2 by simp
  have e3: "m div 65536 = m div 16777216 * 256 + m div 65536 mod 256" unfolding d3 by simp
  show ?thesis using e1 e2 e3 by linarith
qed

lemma getUint32_setUint32:
  "getUint32 (setUint32 n @ rest) 0 = Some (n mod 2 ^ 32)"
  by (simp add: getUint32_def setUint32_def unat_of_nat) (rule be32_arith)

lemma length_setUint32: "length (setUint32 n) = 4"
  by (simp add: setUint32_def)

lemma envelope_roundtrip:
  assumes rt: "json_parse P (text_decode P (metadataBuffer P h)) = Some (metadata h)"
    and len: "0 < length (metadataBuffer P h)" "length (metadataBuffer P h) < 2 ^ 32"
  shows "envelopeTry P (setUint32 (length (metadataBuffer P h)) @ metadataBuffer P h @ file_bytes h)
         = Inr (if file_bytes h = [] then None
                else Some \<lparr>df_blob = file_bytes h, df_name = file_name h,
                       df_type = (if file_type h = [] then ''application/octet-stream''
                                  else file_type h),
                       df_size = length (file_bytes h)\<rparr>)"
proof -
  define mb where "mb = metadataBuffer P h"
  define env where "env = setUint32 (length mb) @ mb @ file_bytes h"
  have g: "getUint32 env 0 = Some (length mb)"
    using len by (simp add: env_def getUint32_setUint32 mb_def)
  have l: "length env = 4 + length mb + length (file_bytes h)"
    by (simp add: env_def length_setUint32)
  have t: "take (length mb) (drop 4 env) = mb"
    by (simp add: env_def length_setUint32)
  have d: "drop (4 + length mb) env = file_bytes h"
    by (simp add: env_def length_setUint32)
  have p: "json_parse P (text_decode P mb) = Some (metadata h)"
    using rt by (simp add: mb_def)
  have "envelopeTry P env
         = Inr (if file_bytes h = [] then None
                else Some \<lparr>df_blob = file_bytes h, df_name = file_name h,
                       df_type = (if file_type h = [] then ''application/octet-stream''
                                  else file_type h),
                       df_size = length (file_bytes h)\<rparr>)"
    unfolding envelopeTry_def g
    using len by (simp add: l t d p mb_def [symmetric] metadata_def Let_def)
  then show ?thesis by (simp add: env_def mb_def)
qed

lemma encodeThenDecode_envelope:
  assumes fc: "finalContainerFile P c a = Some fc"
  shows "encodeThenDecode P c h a
         = Some (processPayload P
                   (setUint32 (length (metadataBuffer P h)) @ metadataBuffer P h @ file_bytes h))"
  using fc by (simp add: encodeThenDecode_def createPolyglot_def Let_def)

lemma scanSignatures_blob_nonempty:
  assumes "scanSignatures tbl p = Some f" and "\<forall>(k, e) \<in> set tbl. sig e \<noteq> []"
  shows "df_blob f \<noteq> []"
  using assms
proof (induction tbl)
  case Nil
  then show ?case by simp
next
  case (Cons ke tbl)
  obtain k e where ke: "ke = (k, e)" by (cases ke)
  with Cons.prems(2) have ne: "sig e \<noteq> []" by simp
  show ?case
  proof (cases "findSequence p (sig e) 0")
    case None
    with Cons ke show ?thesis by simp
  next
    case (Some i)
    show ?thesis
    proof (cases "i < 16")
      case False
      with Some Cons ke show ?thesis by simp
    next
      case True
      from findSequence_Some [OF Some] have "i + length (sig e) \<le> length p"
        by (simp add: occursAt_def)
      with ne have "i < length p" by (cases "sig e") auto
      with Some True Cons.prems(1) ke show ?thesis by auto
    qed
  qed
qed

lemma envelopeTier_blob_nonempty:
  "envelopeTier P p = Some f \<Longrightarrow> df_blob f \<noteq> []"
  by (auto simp: envelopeTier_def envelopeTry_def Let_def
      split: if_splits option.splits sum.splits)

lemma processPayload_blob_nonempty:
  assumes "processPayload P p = Some f"
  shows "df_blob f \<noteq> []"
proof (cases "envelopeTier P p")
  case (Some g)
  with assms have "g = f" by (simp add: processPayload_def)
  with Some show ?thesis using envelopeTier_blob_nonempty by blast
next
  case None
  with assms have fb: "signatureFallback p = Some f" by (simp add: processPayload_def)
  show ?thesis
  proof (cases "scanSignatures signatures p")
    case (Some g)
    with fb have "g = f" by (simp add: signatureFallback_def split: if_splits)
    moreover have "\<forall>(k, e) \<in> set signatures. sig e \<noteq> []" by (simp add: signatures_def)
    ultimately show ?thesis using scanSignatures_blob_nonempty Some by blast
  next
    case None
    with fb show ?thesis by (auto simp: signatureFallback_def split: if_splits)
  qed
qed

lemma ascii_text_roundtrip: "text_decode asciiPlatform (text_encode asciiPlatform s) = s"
proof -
  have "char_of (unat (of_nat (of_char c) :: byte)) = c" for c
    by (simp add: unat_of_nat)
  then show ?thesis by (simp add: asciiPlatform_def comp_def)
qed

lemma ascii_parse_metadata:
  "asciiParse (asciiStringify (metadata hiddenDemo)) = Some (metadata hiddenDemo)"
  "asciiParse (asciiStringify (metadata hiddenNoType)) = Some (metadata hiddenNoType)"
  "asciiParse (asciiStringify (metadata hiddenEmpty)) = Some (metadata hiddenEmpty)"
  by code_simp+

lemma ascii_metadata_length:
  "length (asciiStringify (metadata hiddenDemo)) = 36"
  "length (asciiStringify (metadata hiddenNoType)) = 50"
  "length (asciiStringify (metadata hiddenEmpty)) = 36"
  by code_simp+

lemma ascii_metadataBuffer:
  "json_parse asciiPlatform (text_decode asciiPlatform (metadataBuffer asciiPlatform h))
   = asciiParse (asciiStringify (metadata h))"
  "length (metadataBuffer asciiPlatform h) = length (asciiStringify (metadata h))"
  unfolding metadataBuffer_def ascii_text_roundtrip
  by (simp_all add: asciiPlatform_def)

text \<open>
  C1 (as amended). Take any container, with or without the conversion to PNG, and a
  hidden file whose bytes are not empty, on a platform that reads back the metadata record
  it writes (the record being non-empty and shorter than \<open>2^32\<close> bytes). Then classifying
  the bytes that \<open>createPolyglot\<close> appended after the container returns, through the
  envelope tier, the hidden bytes and the hidden name unchanged, and the hidden media
  type unchanged when it is not empty; an empty media type comes back as
  \<open>application/octet-stream\<close>.
\<close>

theorem envelope_round_trip:
  assumes fc: "finalContainerFile P c a \<noteq> None"
    and rt: "json_parse P (text_decode P (metadataBuffer P h)) = Some (metadata h)"
    and len: "0 < length (metadataBuffer P h)" "length (metadataBuffer P h) < 2 ^ 32"
    and hb: "file_bytes h \<noteq> []"
  shows "encodeThenDecode P c h a
         = Some (Some \<lparr>df_blob = file_bytes h, df_name = file_name h,
                        df_type = (if file_type h = [] then ''application/octet-stream''
                                   else file_type h),
                        df_size = length (file_bytes h)\<rparr>)"
proof -
  from fc obtain f where f: "finalContainerFile P c a = Some f" by blast
  let ?env = "setUint32 (length (metadataBuffer P h)) @ metadataBuffer P h @ file_bytes h"
  have "length ?env > 4" using len by (simp add: length_setUint32)
  then have "envelopeTier P ?env = Some \<lparr>df_blob = file_bytes h, df_name = file_name h,
                     df_type = (if file_type h = [] then ''application/octet-stream''
                                else file_type h),
                     df_size = length (file_bytes h)\<rparr>"
    unfolding envelopeTier_def envelope_roundtrip [OF rt len] using hb by simp
  then show ?thesis
    unfolding encodeThenDecode_envelope [OF f] by (simp add: processPayload_def)
qed

theorem envelope_round_trip_witness:
  "finalContainerFile asciiPlatform containerDemo False \<noteq> None
   \<and> json_parse asciiPlatform (text_decode asciiPlatform (metadataBuffer asciiPlatform hiddenDemo))
       = Some (metadata hiddenDemo)
   \<and> 0 < length (metadataBuffer asciiPlatform hiddenDemo)
   \<and> length (metadataBuffer asciiPlatform hiddenDemo) < 2 ^ 32
   \<and> file_bytes hiddenDemo \<noteq> []
   \<and> encodeThenDecode asciiPlatform containerDemo hiddenDemo False
       = Some (Some \<lparr>df_blob = [0x68, 0x69], df_name = ''a.txt'',
                      df_type = ''text/plain'', df_size = 2\<rparr>)"
proof -
  have a: "finalContainerFile asciiPlatform containerDemo False \<noteq> None"
    by (simp add: finalContainerFile_def)
  have b: "json_parse asciiPlatform (text_decode asciiPlatform (metadataBuffer asciiPlatform hiddenDemo))
       = Some (metadata hiddenDemo)"
    by (simp add: ascii_metadataBuffer ascii_parse_metadata)
  have c: "0 < length (metadataBuffer asciiPlatform hiddenDemo)"
    "length (metadataBuffer asciiPlatform hiddenDemo) < 2 ^ 32"
    by (simp_all add: ascii_metadataBuffer ascii_metadata_length)
  have d: "file_bytes hiddenDemo \<noteq> []" by (simp add: hiddenDemo_def)
  have e: "\<lparr>df_blob = file_bytes hiddenDemo, df_name = file_name hiddenDemo,
             df_type = (if file_type hiddenDemo = [] then ''application/octet-stream''
                        else file_type hiddenDemo),
             df_size = length (file_bytes hiddenDemo)\<rparr>
           = \<lparr>df_blob = [0x68, 0x69], df_name = ''a.txt'',
                      df_type = ''text/plain'', df_size = 2\<rparr>"
    by (simp add: hiddenDemo_def)
  from envelope_round_trip [OF a b c d] have
    "encodeThenDecode asciiPlatform containerDemo hiddenDemo False
       = Some (Some \<lparr>df_blob = [0x68, 0x69], df_name = ''a.txt'',
                      df_type = ''text/plain'', df_size = 2\<rparr>)"
    unfolding e .
  with a b c d show ?thesis by blast
qed

text \<open>
  The round trip as first stated fails on two inputs: a hidden file with an empty media
  type comes back as \<open>application/octet-stream\<close>, and a hidden file with no bytes is
  not returned by the envelope tier at all.
\<close>

theorem envelope_round_trip_counterexample:
  "file_type hiddenNoType = []
   \<and> encodeThenDecode asciiPlatform containerDemo hiddenNoType False
       = Some (Some \<lparr>df_blob = [0x68, 0x69], df_name = ''a.txt'',
                      df_type = ''application/octet-stream'', df_size = 2\<rparr>)
   \<and> file_bytes hiddenEmpty = []
   \<and> encodeThenDecode asciiPlatform containerDemo hiddenEmpty False
       \<noteq> Some (Some \<lparr>df_blob = [], df_name = ''a.txt'', df_type = ''text/plain'', df_size = 0\<rparr>)"
proof -
  have fc: "finalContainerFile asciiPlatform containerDemo False = Some containerDemo"
    by (simp add: finalContainerFile_def)
  have rt: "json_parse asciiPlatform (text_decode asciiPlatform (metadataBuffer asciiPlatform hiddenNoType))
       = Some (metadata hiddenNoType)"
    by (simp add: ascii_metadataBuffer ascii_parse_metadata)
  have len: "0 < length (metadataBuffer asciiPlatform hiddenNoType)"
    "length (metadataBuffer asciiPlatform hiddenNoType) < 2 ^ 32"
    by (simp_all add: ascii_metadataBuffer ascii_metadata_length)
  let ?env = "setUint32 (length (metadataBuffer asciiPlatform hiddenNoType))
              @ metadataBuffer asciiPlatform hiddenNoType @ file_bytes hiddenNoType"
  have "length ?env > 4" using len by (simp add: length_setUint32)
  then have "envelopeTier asciiPlatform ?env
             = Some \<lparr>df_blob = [0x68, 0x69], df_name = ''a.txt'',
                      df_type = ''application/octet-stream'', df_size = 2\<rparr>"
    unfolding envelopeTier_def envelope_roundtrip [OF rt len] by (simp add: hiddenNoType_def)
  then have a: "encodeThenDecode asciiPlatform containerDemo hiddenNoType False
       = Some (Some \<lparr>df_blob = [0x68, 0x69], df_name = ''a.txt'',
                      df_type = ''application/octet-stream'', df_size = 2\<rparr>)"
    unfolding encodeThenDecode_envelope [OF fc] by (simp add: processPayload_def)
  have b: "encodeThenDecode asciiPlatform containerDemo hiddenEmpty False
       \<noteq> Some (Some \<lparr>df_blob = [], df_name = ''a.txt'', df_type = ''text/plain'', df_size = 0\<rparr>)"
    unfolding encodeThenDecode_envelope [OF fc]
    using processPayload_blob_nonempty by fastforce
  from a b show ?thesis by (simp add: hiddenNoType_def hiddenEmpty_def)
qed

section \<open>The JPEG and GIF boundary locators\<close>

declare jpegScan.simps [simp del]

lemma jpegScan_no_marker:
  assumes "\<forall>q\<ge>off. \<not> occursAt d [0xFF, 0xD9] q"
  shows "jpegScan d l off = l"
proof (cases "findSequence d [0xFF, 0xD9] off")
  case None
  then show ?thesis by (simp add: jpegScan.simps [of d l off])
next
  case (Some t)
  from findSequence_Some [OF Some] assms have False by blast
  then show ?thesis ..
qed

lemma jpegScan_last_marker:
  assumes "occursAt d [0xFF, 0xD9] p" and "off \<le> p"
    and "\<forall>q>p. \<not> occursAt d [0xFF, 0xD9] q"
  shows "jpegScan d l off = Some p"
  using assms(2)
proof (induction "p - off" arbitrary: off l rule: less_induct)
  case less
  from assms(1) have "p + 2 \<le> length d" by (simp add: occursAt_def)
  with less.prems have lt: "off < length d" by simp
  obtain t where t: "findSequence d [0xFF, 0xD9] off = Some t"
    using findSequence_None [of d "[0xFF, 0xD9]" off p] assms(1) less.prems
    by (cases "findSequence d [0xFF, 0xD9] off") auto
  from findSequence_Some [OF t] have tp: "off \<le> t" "occursAt d [0xFF, 0xD9] t"
    "\<forall>j. off \<le> j \<and> j < t \<longrightarrow> \<not> occursAt d [0xFF, 0xD9] j" by auto
  with assms(1) less.prems have "t \<le> p" by (meson not_le_imp_less)
  have step: "jpegScan d l off = jpegScan d (Some t) (t + 1)"
    using lt t by (simp add: jpegScan.simps [of d l off])
  show ?case
  proof (cases "t = p")
    case True
    from assms(3) have "\<forall>q\<ge>p + 1. \<not> occursAt d [0xFF, 0xD9] q" by auto
    from jpegScan_no_marker [OF this] step True show ?thesis by simp
  next
    case False
    with \<open>t \<le> p\<close> have "t + 1 \<le> p" by simp
    moreover from this tp(1) have "p - (t + 1) < p - off" by simp
    ultimately have "jpegScan d (Some t) (t + 1) = Some p" by (rule less.hyps [rotated])
    with step show ?thesis by simp
  qed
qed

lemma startsWith_Cons:
  "startsWith d (b # bs) \<Longrightarrow> d \<noteq> [] \<and> hd d = b"
  by (cases d) (auto simp: startsWith_def)

text \<open>
  C3. For a buffer that begins with the JPEG signature \<open>FF D8 FF\<close> and contains the end
  marker \<open>FF D9\<close>, the split index is the index of the last occurrence of the marker
  plus 2.
\<close>

theorem jpeg_last_end_marker:
  assumes "startsWith data [0xFF, 0xD8, 0xFF]"
    and "occursAt data [0xFF, 0xD9] p"
    and "\<forall>q>p. \<not> occursAt data [0xFF, 0xD9] q"
  shows "findSplitIndex data = Some (p + 2)"
proof -
  from startsWith_Cons [OF assms(1)] have "\<not> startsWith data [0x89, 0x50, 0x4E, 0x47]"
    using startsWith_Cons [of data "0x89" "[0x50, 0x4E, 0x47]"] by auto
  moreover have "jpegScan data None 0 = Some p"
    using assms(2) _ assms(3) by (rule jpegScan_last_marker) simp
  ultimately show ?thesis using assms(1) by (simp add: findSplitIndex_def)
qed

text \<open>
  Occurrences at 3 and 6 inside the data and the last one at 9: the split index is 11.
\<close>

theorem jpeg_last_end_marker_witness:
  "startsWith jpegDemo [0xFF, 0xD8, 0xFF]
   \<and> occursAt jpegDemo [0xFF, 0xD9] 3 \<and> occursAt jpegDemo [0xFF, 0xD9] 6
   \<and> occursAt jpegDemo [0xFF, 0xD9] 9 \<and> \<not> (\<exists>q>9. occursAt jpegDemo [0xFF, 0xD9] q)
   \<and> findSplitIndex jpegDemo = Some 11"
proof -
  have s: "startsWith jpegDemo [0xFF, 0xD8, 0xFF]" by (simp add: startsWith_def jpegDemo_def)
  have o: "occursAt jpegDemo [0xFF, 0xD9] 3" "occursAt jpegDemo [0xFF, 0xD9] 6"
    "occursAt jpegDemo [0xFF, 0xD9] 9"
    by (simp_all add: occursAt_def jpegDemo_def)
  have n: "\<forall>q>9. \<not> occursAt jpegDemo [0xFF, 0xD9] q"
  proof (intro allI impI notI)
    fix q :: nat assume "9 < q" and oq: "occursAt jpegDemo [0xFF, 0xD9] q"
    then have "q = 10 \<or> q = 11" by (auto simp: occursAt_def jpegDemo_def)
    with oq show False by (auto simp: occursAt_def jpegDemo_def)
  qed
  from n have n': "\<not> (\<exists>q>9. occursAt jpegDemo [0xFF, 0xD9] q)" by blast
  from jpeg_last_end_marker [OF s o(3) n] have "findSplitIndex jpegDemo = Some 11" by simp
  with s o n' show ?thesis by blast
qed

lemma lastIndexDown_last:
  "j \<le> k \<Longrightarrow> d ! j = x \<Longrightarrow> (\<forall>i. j < i \<and> i \<le> k \<longrightarrow> d ! i \<noteq> x)
   \<Longrightarrow> lastIndexDown d x k = Some j"
proof (induction k)
  case 0
  then show ?case by simp
next
  case (Suc k)
  show ?case
  proof (cases "j = Suc k")
    case True
    with Suc.prems show ?thesis by simp
  next
    case False
    with Suc.prems have "j \<le> k" "d ! Suc k \<noteq> x" by auto
    with Suc show ?thesis by simp
  qed
qed

text \<open>
  C4 (as amended). For a buffer that begins with the GIF signature, the backward search
  from index \<open>length - 2\<close> returns the last occurrence of the trailer byte \<open>3B\<close> at an
  index of at most \<open>length - 2\<close>, and the split index is that index plus 1; a trailer
  byte at the final index \<open>length - 1\<close> is never the one returned.
\<close>

theorem gif_backward_search:
  assumes "startsWith data [0x47, 0x49, 0x46]"
    and "j + 2 \<le> length data" and "data ! j = 0x3B"
    and "\<forall>i. j < i \<and> i + 2 \<le> length data \<longrightarrow> data ! i \<noteq> 0x3B"
  shows "findSplitIndex data = Some (j + 1)"
proof -
  from startsWith_Cons [OF assms(1)] have h: "\<not> startsWith data [0x89, 0x50, 0x4E, 0x47]"
    "\<not> startsWith data [0xFF, 0xD8, 0xFF]"
    using startsWith_Cons [of data "0x89" "[0x50, 0x4E, 0x47]"]
      startsWith_Cons [of data "0xFF" "[0xD8, 0xFF]"] by auto
  from assms(2) have k: "lastIndexOf data 0x3B (int (length data) - 2)
                         = lastIndexDown data 0x3B (length data - 2)"
    by (auto simp: lastIndexOf_def Let_def min_def nat_diff_distrib)
  have "lastIndexDown data 0x3B (length data - 2) = Some j"
    using assms(2,3,4) by (intro lastIndexDown_last) auto
  with k h assms(1) show ?thesis by (simp add: findSplitIndex_def)
qed

theorem gif_backward_search_witness:
  "startsWith gifDemo [0x47, 0x49, 0x46] \<and> 3 + 2 \<le> length gifDemo \<and> gifDemo ! 3 = 0x3B
   \<and> \<not> (\<exists>i. 3 < i \<and> i + 2 \<le> length gifDemo \<and> gifDemo ! i = 0x3B)
   \<and> findSplitIndex gifDemo = Some 4"
proof -
  have s: "startsWith gifDemo [0x47, 0x49, 0x46]" by (simp add: startsWith_def gifDemo_def)
  have l: "3 + 2 \<le> length gifDemo" by (simp add: gifDemo_def)
  have b: "gifDemo ! 3 = 0x3B" by (simp add: gifDemo_def)
  have n: "\<forall>i. 3 < i \<and> i + 2 \<le> length gifDemo \<longrightarrow> gifDemo ! i \<noteq> 0x3B"
  proof (intro allI impI)
    fix i :: nat assume "3 < i \<and> i + 2 \<le> length gifDemo"
    then have "i = 4" by (simp add: gifDemo_def)
    then show "gifDemo ! i \<noteq> 0x3B" by (simp add: gifDemo_def)
  qed
  from n have n': "\<not> (\<exists>i. 3 < i \<and> i + 2 \<le> length gifDemo \<and> gifDemo ! i = 0x3B)" by blast
  from gif_backward_search [OF s l b n] have "findSplitIndex gifDemo = Some 4" by simp
  with s l b n' show ?thesis by blast
qed

text \<open>
  With the trailer byte both at index 3 and as the final byte at index 5, the search
  returns index 3 (split index 4), not the final occurrence.
\<close>

theorem gif_backward_search_counterexample:
  "startsWith gifDemo [0x47, 0x49, 0x46] \<and> length gifDemo = 6
   \<and> gifDemo ! 3 = 0x3B \<and> gifDemo ! 5 = 0x3B
   \<and> findSplitIndex gifDemo = Some 4 \<and> findSplitIndex gifDemo \<noteq> Some (5 + 1)"
proof -
  have s: "startsWith gifDemo [0x47, 0x49, 0x46]" by (simp add: startsWith_def gifDemo_def)
  have "lastIndexDown gifDemo 0x3B 4 = Some 3"
  proof (rule lastIndexDown_last)
    show "\<forall>i. 3 < i \<and> i \<le> 4 \<longrightarrow> gifDemo ! i \<noteq> 0x3B"
    proof (intro allI impI)
      fix i :: nat assume "3 < i \<and> i \<le> 4"
      then have "i = 4" by simp
      then show "gifDemo ! i \<noteq> 0x3B" by (simp add: gifDemo_def)
    qed
  qed (simp_all add: gifDemo_def)
  moreover have "lastIndexOf gifDemo 0x3B (int (length gifDemo) - 2)
                 = lastIndexDown gifDemo 0x3B 4"
    by (simp add: lastIndexOf_def gifDemo_def)
  ultimately have "findSplitIndex gifDemo = Some 4"
    by (simp add: findSplitIndex_def startsWith_def gifDemo_def)
  with s show ?thesis by (simp add: gifDemo_def)
qed

section \<open>The M4A box walker: termination\<close>

lemma m4aWalk_loopDemo_never:
  assumes "m4aWalk d off = Some y"
  shows "d \<noteq> loopDemo \<or> off \<noteq> 0"
  apply (rule m4aWalk.raw_induct [OF _ assms])
  subgoal premises prems for f data offset r
  proof (cases "data = loopDemo \<and> offset = 0")
    case True
    with prems(2) have "f loopDemo 0 = Some r"
      by (simp add: loopDemo_def getUint32_def validBoxType_def isBoxTypeByte_def)
    from prems(1) [OF this] show ?thesis by simp
  next
    case False
    then show ?thesis by simp
  qed
  done

text \<open>
  C10. The box-walking loop should terminate on every buffer. On the box above it does
  not: the extended size 0 leaves the offset where it was, the bound check passes, and
  the next iteration reads the same box again. The walk, \<open>decodeM4AContainer\<close> and
  \<open>decodePolyglot\<close> have no result on this input.
\<close>

theorem m4a_walk_never_ends:
  "m4aWalk loopDemo 0 = None \<and> decodeM4AContainer loopDemo Exe = None
   \<and> decodeM4AContainer loopDemo Apk = None
   \<and> decodePolyglot asciiPlatform (m4aFileDemo loopDemo) (Some \<lparr>executableType = Some Exe\<rparr>) = None"
proof -
  have w: "m4aWalk loopDemo 0 = None"
    using m4aWalk_loopDemo_never [of loopDemo 0] by (cases "m4aWalk loopDemo 0") auto
  then have d: "decodeM4AContainer loopDemo t = None" for t
    by (simp add: decodeM4AContainer_def)
  have "isM4A (m4aFileDemo loopDemo)" by (simp add: isM4A_def m4aFileDemo_def)
  with d w show ?thesis by (simp add: decodePolyglot_def m4aFileDemo_def)
qed

section \<open>The M4A box walker: oversized boxes\<close>

lemma m4aWalk_stops_oversized:
  assumes "declaredSize d off = Some s" and "off + s > length d"
  shows "m4aWalk d off = Some off"
proof -
  from assms(1) have h: "off + 8 \<le> length d" "validBoxType (take 4 (drop (off + 4) d))"
    by (auto simp: declaredSize_def split: if_splits)
  from assms(1) h obtain bs where bs: "getUint32 d off = Some bs" "bs \<noteq> 0"
    by (auto simp: declaredSize_def split: option.splits if_splits)
  show ?thesis
  proof (cases "bs = 1")
    case False
    with assms bs h have "s = bs" by (simp add: declaredSize_def)
    with assms(2) bs h False show ?thesis by (subst m4aWalk.simps) simp
  next
    case True
    with assms(1) bs h obtain hi lo where hl: "getUint32 d (off + 8) = Some hi"
      "getUint32 d (off + 12) = Some lo" "s = hi * 2 ^ 32 + lo"
      by (auto simp: declaredSize_def split: option.splits)
    with assms(2) bs h True show ?thesis by (subst m4aWalk.simps) auto
  qed
qed

lemma m4aWalk_advances:
  assumes "declaredSize d off = Some s" and "s < 2 ^ 32" and "off + s \<le> length d"
  shows "m4aWalk d off = m4aWalk d (off + s)"
proof -
  from assms(1) have h: "off + 8 \<le> length d" "validBoxType (take 4 (drop (off + 4) d))"
    by (auto simp: declaredSize_def split: if_splits)
  from assms(1) h obtain bs where bs: "getUint32 d off = Some bs" "bs \<noteq> 0"
    by (auto simp: declaredSize_def split: option.splits if_splits)
  show ?thesis
  proof (cases "bs = 1")
    case False
    with assms bs h have "s = bs" by (simp add: declaredSize_def)
    with assms(3) bs h False show ?thesis by (subst m4aWalk.simps) simp
  next
    case True
    with assms(1) bs h obtain hi lo where hl: "getUint32 d (off + 8) = Some hi"
      "getUint32 d (off + 12) = Some lo" "s = hi * 2 ^ 32 + lo"
      by (auto simp: declaredSize_def split: option.splits)
    with assms(2) have "hi = 0" by (cases hi) auto
    with hl have "s = lo" by simp
    from hl(2) have "off + 16 \<le> length d" by (simp add: getUint32_def split: if_splits)
    with assms(3) bs h True hl \<open>hi = 0\<close> \<open>s = lo\<close> show ?thesis
      by (subst m4aWalk.simps) simp
  qed
qed

lemma walkReaches_same_result:
  "walkReaches d off \<Longrightarrow> m4aWalk d 0 = m4aWalk d off"
  by (induction rule: walkReaches.induct) (simp_all add: m4aWalk_advances)

text \<open>
  C5. When the walker arrives at a box whose declared size would take the offset past
  the end of the buffer, the loop is left with the offset at the start of that box.
\<close>

theorem m4a_oversized_box:
  assumes "walkReaches d off" and "declaredSize d off = Some s" and "off + s > length d"
  shows "m4aWalk d 0 = Some off"
  using walkReaches_same_result [OF assms(1)] m4aWalk_stops_oversized [OF assms(2,3)]
  by simp

text \<open>
  In the sample buffer the walker arrives at offset 8, where the box declares 32 bytes:
  the boundary is 8.
\<close>

theorem m4a_oversized_box_witness:
  "walkReaches truncatedDemo 8 \<and> declaredSize truncatedDemo 8 = Some 32
   \<and> 8 + 32 > length truncatedDemo \<and> m4aWalk truncatedDemo 0 = Some 8"
proof -
  have d0: "declaredSize truncatedDemo 0 = Some 8"
    by (simp add: declaredSize_def truncatedDemo_def getUint32_def validBoxType_def
        isBoxTypeByte_def)
  have "walkReaches truncatedDemo (0 + 8)"
    by (rule walkReaches.advance [OF walkReaches.start d0]) (simp_all add: truncatedDemo_def)
  then have r: "walkReaches truncatedDemo 8" by simp
  have d8: "declaredSize truncatedDemo 8 = Some 32"
    by (simp add: declaredSize_def truncatedDemo_def getUint32_def validBoxType_def
        isBoxTypeByte_def)
  have l: "8 + 32 > length truncatedDemo" by (simp add: truncatedDemo_def)
  from m4a_oversized_box [OF r d8 l] r d8 l show ?thesis by simp
qed

section \<open>The M4A decode path\<close>

lemma getUint32_append: "getUint32 (pre @ xs) (length pre + k) = getUint32 xs k"
  by (simp add: getUint32_def nth_append)

lemma length_m4aBox: "length tag = 4 \<Longrightarrow> length (m4aBox tag body) = 8 + length body"
  by (simp add: m4aBox_def length_setUint32)

lemma declaredSize_box:
  assumes "validBoxType tag" and "8 + length body < 2 ^ 32"
  shows "declaredSize (pre @ m4aBox tag body @ post) (length pre) = Some (8 + length body)"
proof -
  from assms(1) have lt: "length tag = 4" by (simp add: validBoxType_def)
  let ?d = "pre @ m4aBox tag body @ post"
  have g: "getUint32 ?d (length pre) = Some (8 + length body)"
    using getUint32_append [of pre "m4aBox tag body @ post" 0] assms(2)
    by (simp add: m4aBox_def getUint32_setUint32)
  have t: "take 4 (drop (length pre + 4) ?d) = tag"
    using lt by (simp add: m4aBox_def length_setUint32)
  have l: "length pre + 8 \<le> length ?d" using lt by (simp add: length_m4aBox)
  show ?thesis using g t l assms(1) by (simp add: declaredSize_def)
qed

lemma m4aWalk_skips_box:
  assumes "validBoxType tag" and "8 + length body < 2 ^ 32"
  shows "m4aWalk (pre @ m4aBox tag body @ post) (length pre)
         = m4aWalk (pre @ m4aBox tag body @ post) (length pre + (8 + length body))"
proof (rule m4aWalk_advances [OF declaredSize_box [OF assms]])
  show "8 + length body < 2 ^ 32" by (rule assms(2))
  from assms(1) have "length tag = 4" by (simp add: validBoxType_def)
  then show "length pre + (8 + length body) \<le> length (pre @ m4aBox tag body @ post)"
    by (simp add: length_m4aBox)
qed

lemma m4aWalk_three_boxes:
  assumes "validBoxType t1" "validBoxType t2" "validBoxType t3" and "length body = 8"
  shows "m4aWalk (m4aBox t1 [] @ m4aBox t2 body @ m4aBox t3 [] @ post) 0
         = m4aWalk (m4aBox t1 [] @ m4aBox t2 body @ m4aBox t3 [] @ post) 32"
proof -
  let ?d = "m4aBox t1 [] @ m4aBox t2 body @ m4aBox t3 [] @ post"
  from assms have lt: "length t1 = 4" "length t2 = 4" "length t3 = 4"
    by (simp_all add: validBoxType_def)
  have s1: "m4aWalk ?d 0 = m4aWalk ?d 8"
    using m4aWalk_skips_box [OF assms(1), of "[]" "[]" "m4aBox t2 body @ m4aBox t3 [] @ post"]
    by simp
  have s2: "m4aWalk ?d 8 = m4aWalk ?d 24"
    using m4aWalk_skips_box [OF assms(2), of body "m4aBox t1 []" "m4aBox t3 [] @ post"]
      assms(4) lt
    by (simp add: length_m4aBox)
  have s3: "m4aWalk ?d 24 = m4aWalk ?d 32"
    using m4aWalk_skips_box [OF assms(3), of "[]" "m4aBox t1 [] @ m4aBox t2 body" post]
      assms(4) lt
    by (simp add: length_m4aBox)
  from s1 s2 s3 show ?thesis by simp
qed

lemma m4aWalk_stops_at_payload:
  assumes "length rest < 6 \<or> \<not> validBoxType (take 4 (drop 2 rest))
           \<or> length rest + 2 < 1297743872 + unat (rest ! 0) * 256 + unat (rest ! 1)"
  shows "m4aWalk (pre @ [0x4D, 0x5A] @ rest) (length pre) = Some (length pre)"
proof (cases "length rest < 6")
  case True
  then show ?thesis by (subst m4aWalk.simps) simp
next
  case False
  let ?d = "pre @ [0x4D, 0x5A] @ rest"
  from False have l: "length pre + 8 \<le> length ?d" by simp
  have g: "getUint32 ?d (length pre)
           = Some (1297743872 + unat (rest ! 0) * 256 + unat (rest ! 1))"
    using getUint32_append [of pre "[0x4D, 0x5A] @ rest" 0] False
    by (simp add: getUint32_def)
  have t: "take 4 (drop (length pre + 4) ?d) = take 4 (drop 2 rest)" by simp
  show ?thesis
  proof (cases "validBoxType (take 4 (drop 2 rest))")
    case False
    with l g t show ?thesis by (subst m4aWalk.simps) simp
  next
    case True
    with assms \<open>\<not> length rest < 6\<close>
    have "length rest + 2 < 1297743872 + unat (rest ! 0) * 256 + unat (rest ! 1)" by blast
    with l g t True show ?thesis by (subst m4aWalk.simps) simp
  qed
qed

lemma findSequence_at_start:
  "(findSequence p s 0 = Some 0) = startsWith p s"
proof
  assume "findSequence p s 0 = Some 0"
  from findSequence_Some [OF this] show "startsWith p s"
    by (auto simp: occursAt_def startsWith_def)
next
  assume "startsWith p s"
  then have "occursAt p s 0" by (auto simp: occursAt_def startsWith_def)
  then show "findSequence p s 0 = Some 0" by (intro findSequence_first) auto
qed

lemma decodeM4AContainer_Exe:
  assumes "m4aWalk data 0 = Some b"
  shows "decodeM4AContainer data Exe
         = Some (if 0 < b \<and> b < length data \<and> startsWith (drop b data) [0x4D, 0x5A]
                 then Some \<lparr>df_blob = drop b data, df_name = ''hidden.exe'',
                            df_type = ''application/vnd.microsoft.portable-executable'',
                            df_size = length data - b\<rparr>
                 else None)"
  using assms by (simp add: decodeM4AContainer_def signatures_def findSequence_at_start)

lemma decodeM4AContainer_Apk:
  assumes "m4aWalk data 0 = Some b"
  shows "decodeM4AContainer data Apk
         = Some (if 0 < b \<and> b < length data \<and> startsWith (drop b data) [0x50, 0x4B, 0x03, 0x04]
                 then Some \<lparr>df_blob = drop b data, df_name = ''hidden.apk'',
                            df_type = ''application/vnd.android.package-archive'',
                            df_size = length data - b\<rparr>
                 else None)"
  using assms by (simp add: decodeM4AContainer_def signatures_def findSequence_at_start)

lemma findSplitIndex_no_header:
  assumes "d \<noteq> []" and "hd d = 0"
  shows "findSplitIndex d = None"
proof -
  have "\<not> startsWith d (b # bs)" if "b \<noteq> 0" for b bs
    using startsWith_Cons [of d b bs] assms that by auto
  then show ?thesis by (simp add: findSplitIndex_def)
qed

lemma m4aBox_head: "m4aBox tag [] @ post \<noteq> [] \<and> hd (m4aBox tag [] @ post) = 0"
  by (simp add: m4aBox_def setUint32_def)

text \<open>
  C6 (as amended). Take three boxes of sizes 8, 16 and 8 followed by bytes that begin with
  the EXE signature \<open>4D 5A\<close>, where the walker does not take those trailing bytes for a
  further box that fits in the buffer (fewer than 8 trailing bytes, or bytes 4 to 7 of
  them fail the tag test, or the size read from their first four bytes passes the end of
  the buffer). Then the walk ends at 32; with the hint \<open>exe\<close> the M4A path returns the
  trailing bytes as \<open>hidden.exe\<close>, and with the hint \<open>apk\<close> the decode yields no file.
\<close>

theorem m4a_three_boxes_exe:
  assumes tags: "validBoxType t1" "validBoxType t2" "validBoxType t3"
    and body: "length body = 8"
    and data: "data = m4aBox t1 [] @ m4aBox t2 body @ m4aBox t3 [] @ [0x4D, 0x5A] @ rest"
    and stop: "length rest < 6 \<or> \<not> validBoxType (take 4 (drop 2 rest))
               \<or> length rest + 2 < 1297743872 + unat (rest ! 0) * 256 + unat (rest ! 1)"
    and m4a: "isM4A f" "file_bytes f = data"
  shows "m4aWalk data 0 = Some 32
         \<and> decodePolyglot P f (Some \<lparr>executableType = Some Exe\<rparr>)
             = Some (Some \<lparr>df_blob = [0x4D, 0x5A] @ rest, df_name = ''hidden.exe'',
                            df_type = ''application/vnd.microsoft.portable-executable'',
                            df_size = 2 + length rest\<rparr>)
         \<and> decodeM4AContainer data Apk = Some None
         \<and> decodePolyglot P f (Some \<lparr>executableType = Some Apk\<rparr>) = Some None"
proof -
  from tags have lt: "length t1 = 4" "length t2 = 4" "length t3 = 4"
    by (simp_all add: validBoxType_def)
  let ?pre = "m4aBox t1 [] @ m4aBox t2 body @ m4aBox t3 []"
  have lp: "length ?pre = 32" using lt body by (simp add: length_m4aBox)
  have d: "data = ?pre @ [0x4D, 0x5A] @ rest" by (simp add: data)
  have "m4aWalk data 0 = m4aWalk data 32"
    unfolding data by (rule m4aWalk_three_boxes [OF tags body])
  also have "\<dots> = Some 32"
    using m4aWalk_stops_at_payload [OF stop, of ?pre] unfolding d lp .
  finally have w: "m4aWalk data 0 = Some 32" .
  have p: "drop 32 data = [0x4D, 0x5A] @ rest" using lp unfolding d by simp
  have l: "length data = 34 + length rest" using lp unfolding d by simp
  have e: "decodeM4AContainer data Exe
           = Some (Some \<lparr>df_blob = [0x4D, 0x5A] @ rest, df_name = ''hidden.exe'',
                          df_type = ''application/vnd.microsoft.portable-executable'',
                          df_size = 2 + length rest\<rparr>)"
    unfolding decodeM4AContainer_Exe [OF w] p l by (simp add: startsWith_def)
  have a: "decodeM4AContainer data Apk = Some None"
    unfolding decodeM4AContainer_Apk [OF w] p l by (simp add: startsWith_def)
  have "findSplitIndex data = None"
    unfolding data using m4aBox_head by (intro findSplitIndex_no_header) auto
  then have m: "decodeByMarkers P data = None" by (simp add: decodeByMarkers_def)
  from w e a m m4a show ?thesis by (simp add: decodePolyglot_def)
qed

lemma sample_tags:
  "validBoxType [0x66, 0x74, 0x79, 0x70]" "validBoxType [0x6D, 0x6F, 0x6F, 0x76]"
  "validBoxType [0x66, 0x72, 0x65, 0x65]"
  by (simp_all add: validBoxType_def isBoxTypeByte_def)

lemma isM4A_m4aFileDemo: "isM4A (m4aFileDemo d)"
  by (simp add: isM4A_def m4aFileDemo_def)

theorem m4a_three_boxes_exe_witness:
  "validBoxType [0x66, 0x74, 0x79, 0x70] \<and> validBoxType [0x6D, 0x6F, 0x6F, 0x76]
   \<and> validBoxType [0x66, 0x72, 0x65, 0x65] \<and> length (replicate 8 (0::byte)) = 8
   \<and> length [0x90, 0x00 :: byte] < 6
   \<and> isM4A (m4aFileDemo exeDemo) \<and> file_bytes (m4aFileDemo exeDemo) = exeDemo
   \<and> m4aWalk exeDemo 0 = Some 32
   \<and> decodePolyglot asciiPlatform (m4aFileDemo exeDemo) (Some \<lparr>executableType = Some Exe\<rparr>)
       = Some (Some \<lparr>df_blob = [0x4D, 0x5A, 0x90, 0x00], df_name = ''hidden.exe'',
                      df_type = ''application/vnd.microsoft.portable-executable'',
                      df_size = 4\<rparr>)
   \<and> decodeM4AContainer exeDemo Apk = Some None
   \<and> decodePolyglot asciiPlatform (m4aFileDemo exeDemo) (Some \<lparr>executableType = Some Apk\<rparr>)
       = Some None"
proof -
  have b: "length (replicate 8 (0::byte)) = 8" by simp
  have s: "length [0x90, 0x00 :: byte] < 6 \<or> \<not> validBoxType (take 4 (drop 2 [0x90, 0x00]))
           \<or> length [0x90, 0x00 :: byte] + 2
              < 1297743872 + unat ([0x90, 0x00 :: byte] ! 0) * 256 + unat ([0x90, 0x00 :: byte] ! 1)"
    by simp
  have f: "file_bytes (m4aFileDemo exeDemo) = exeDemo" by (simp add: m4aFileDemo_def)
  from m4a_three_boxes_exe [OF sample_tags b exeDemo_def s isM4A_m4aFileDemo f, of asciiPlatform]
    sample_tags isM4A_m4aFileDemo [of exeDemo] f
  show ?thesis by simp
qed

lemma length_bigBody: "length bigBody = 1297743864"
  by (simp only: bigBody_def length_replicate)

lemma bigDemo_fourth_box:
  "[0x4D, 0x5A] @ [0x00, 0x00, 0x66, 0x72, 0x65, 0x65] @ bigBody
   = m4aBox [0x66, 0x72, 0x65, 0x65] bigBody"
  by (simp add: m4aBox_def setUint32_def length_bigBody)

text \<open>
  The walker takes the trailing bytes \<open>4D 5A 00 00 'free' ...\<close> for a fourth box of
  1297743872 bytes that fits the buffer, walks to the end of the buffer, and the M4A
  path yields no file although the hint is \<open>exe\<close>.
\<close>

theorem m4a_three_boxes_exe_counterexample:
  "bigDemo = m4aBox [0x66, 0x74, 0x79, 0x70] [] @ m4aBox [0x6D, 0x6F, 0x6F, 0x76] (replicate 8 0)
             @ m4aBox [0x66, 0x72, 0x65, 0x65] []
             @ [0x4D, 0x5A] @ [0x00, 0x00, 0x66, 0x72, 0x65, 0x65] @ bigBody
   \<and> length bigDemo = 1297743904
   \<and> m4aWalk bigDemo 0 = Some 1297743904
   \<and> decodeM4AContainer bigDemo Exe = Some None
   \<and> decodePolyglot asciiPlatform (m4aFileDemo bigDemo) (Some \<lparr>executableType = Some Exe\<rparr>)
       = Some None"
proof -
  let ?pre = "m4aBox [0x66, 0x74, 0x79, 0x70] [] @ m4aBox [0x6D, 0x6F, 0x6F, 0x76] (replicate 8 0)
              @ m4aBox [0x66, 0x72, 0x65, 0x65] []"
  let ?box = "m4aBox [0x66, 0x72, 0x65, 0x65] bigBody"
  have lp: "length ?pre = 32" by (simp add: length_m4aBox)
  have lx: "length ?box = 1297743872" by (simp add: length_m4aBox length_bigBody)
  have d: "bigDemo = ?pre @ ?box @ []"
    unfolding bigDemo_def bigDemo_fourth_box by simp
  have l: "length bigDemo = 1297743904" unfolding d using lp lx by simp
  have "m4aWalk bigDemo 0 = m4aWalk bigDemo 32"
    using m4aWalk_three_boxes [OF sample_tags, of "replicate 8 0" "?box @ []"]
    unfolding d by simp
  also have "\<dots> = m4aWalk bigDemo (32 + (8 + length bigBody))"
    using m4aWalk_skips_box [OF sample_tags(3), of bigBody ?pre "[]"]
    unfolding d lp by (simp add: length_bigBody)
  also have "\<dots> = Some 1297743904"
    by (subst m4aWalk.simps) (simp add: l length_bigBody)
  finally have w: "m4aWalk bigDemo 0 = Some 1297743904" .
  have e: "decodeM4AContainer bigDemo Exe = Some None"
    unfolding decodeM4AContainer_Exe [OF w] by (simp add: l)
  have "findSplitIndex bigDemo = None"
    unfolding bigDemo_def using m4aBox_head by (intro findSplitIndex_no_header) auto
  then have m: "decodeByMarkers asciiPlatform bigDemo = None" by (simp add: decodeByMarkers_def)
  from e m isM4A_m4aFileDemo [of bigDemo]
  have p: "decodePolyglot asciiPlatform (m4aFileDemo bigDemo) (Some \<lparr>executableType = Some Exe\<rparr>)
           = Some None"
    by (simp add: decodePolyglot_def m4aFileDemo_def)
  from bigDemo_def l w e p show ?thesis by blast
qed

text \<open>
  C7 (as amended). On the M4A decode path the payload is not handed to \<open>processPayload\<close>:
  when the walk ends at a boundary \<open>b\<close>, \<open>decodeM4AContainer\<close> returns the whole payload
  \<open>data[b:]\<close>, named \<open>hidden.<ext>\<close> with the MIME type of the hint, exactly when
  \<open>0 < b < length\<close> and the payload begins with the signature of the hint; otherwise it
  returns nothing. No envelope is decoded.
\<close>

theorem m4a_path_result:
  assumes "m4aWalk data 0 = Some b"
  shows "decodeM4AContainer data Exe
         = Some (if 0 < b \<and> b < length data \<and> startsWith (drop b data) [0x4D, 0x5A]
                 then Some \<lparr>df_blob = drop b data, df_name = ''hidden.exe'',
                            df_type = ''application/vnd.microsoft.portable-executable'',
                            df_size = length data - b\<rparr>
                 else None)
       \<and> decodeM4AContainer data Apk
         = Some (if 0 < b \<and> b < length data \<and> startsWith (drop b data) [0x50, 0x4B, 0x03, 0x04]
                 then Some \<lparr>df_blob = drop b data, df_name = ''hidden.apk'',
                            df_type = ''application/vnd.android.package-archive'',
                            df_size = length data - b\<rparr>
                 else None)"
  using decodeM4AContainer_Exe [OF assms] decodeM4AContainer_Apk [OF assms] by simp

lemma m4aWalk_m4aDemo: "m4aWalk m4aDemo 0 = Some 8"
proof -
  have "m4aWalk m4aDemo 0 = m4aWalk m4aDemo 8"
    using m4aWalk_skips_box [OF sample_tags(1), of "[]" "[]" "[0x4D, 0x5A] @ []"]
    by (simp add: m4aDemo_def)
  also have "\<dots> = Some 8"
    using m4aWalk_stops_at_payload [of "[]" "m4aBox [0x66, 0x74, 0x79, 0x70] []"]
    by (simp add: m4aDemo_def length_m4aBox)
  finally show ?thesis .
qed

lemma m4aDemo_payload: "drop 8 m4aDemo = [0x4D, 0x5A]" "length m4aDemo = 10"
  by (simp_all add: m4aDemo_def m4aBox_def length_setUint32)

theorem m4a_path_result_witness:
  "m4aWalk m4aDemo 0 = Some 8
   \<and> decodeM4AContainer m4aDemo Exe
       = Some (Some \<lparr>df_blob = [0x4D, 0x5A], df_name = ''hidden.exe'',
                      df_type = ''application/vnd.microsoft.portable-executable'',
                      df_size = 2\<rparr>)
   \<and> decodeM4AContainer m4aDemo Apk = Some None"
  using m4a_path_result [OF m4aWalk_m4aDemo] m4aWalk_m4aDemo
  by (simp add: m4aDemo_payload startsWith_def)

text \<open>
  For a box of size 8 followed by \<open>4D 5A\<close> the M4A path succeeds and names the file
  \<open>hidden.exe\<close>; \<open>processPayload\<close> on the same payload names it \<open>hidden-file.exe\<close>.
\<close>

theorem m4a_path_result_counterexample:
  "m4aWalk m4aDemo 0 = Some 8
   \<and> decodeM4AContainer m4aDemo Exe
       = Some (Some \<lparr>df_blob = [0x4D, 0x5A], df_name = ''hidden.exe'',
                      df_type = ''application/vnd.microsoft.portable-executable'',
                      df_size = 2\<rparr>)
   \<and> processPayload asciiPlatform (drop 8 m4aDemo)
       = Some \<lparr>df_blob = [0x4D, 0x5A], df_name = ''hidden-file.exe'',
               df_type = ''application/vnd.microsoft.portable-executable'', df_size = 2\<rparr>"
proof -
  have e: "decodeM4AContainer m4aDemo Exe
       = Some (Some \<lparr>df_blob = [0x4D, 0x5A], df_name = ''hidden.exe'',
                      df_type = ''application/vnd.microsoft.portable-executable'',
                      df_size = 2\<rparr>)"
    unfolding decodeM4AContainer_Exe [OF m4aWalk_m4aDemo]
    by (simp add: m4aDemo_payload startsWith_def)
  have "envelopeTier asciiPlatform [0x4D, 0x5A] = None" by (simp add: envelopeTier_def)
  moreover have "scanSignatures signatures [0x4D, 0x5A]
       = Some \<lparr>df_blob = [0x4D, 0x5A], df_name = ''hidden-file.exe'',
               df_type = ''application/vnd.microsoft.portable-executable'', df_size = 2\<rparr>"
    by (simp add: signatures_def findSequence.simps)
  ultimately have "processPayload asciiPlatform [0x4D, 0x5A]
       = Some \<lparr>df_blob = [0x4D, 0x5A], df_name = ''hidden-file.exe'',
               df_type = ''application/vnd.microsoft.portable-executable'', df_size = 2\<rparr>"
    by (simp add: processPayload_def signatureFallback_def)
  with e m4aWalk_m4aDemo show ?thesis by (simp add: m4aDemo_payload)
qed

section \<open>The oracle fallback\<close>

lemma processPayload_nonempty: "p \<noteq> [] \<Longrightarrow> processPayload P p \<noteq> None"
  by (simp add: processPayload_def signatureFallback_def split: option.splits)

lemma findSplitIndex_gifDemo: "findSplitIndex gifDemo = Some 4"
proof -
  have "lastIndexDown gifDemo 0x3B 4 = Some 3"
  proof (rule lastIndexDown_last)
    show "\<forall>i. 3 < i \<and> i \<le> 4 \<longrightarrow> gifDemo ! i \<noteq> 0x3B"
    proof (intro allI impI)
      fix i :: nat assume "3 < i \<and> i \<le> 4"
      then have "i = 4" by simp
      then show "gifDemo ! i \<noteq> 0x3B" by (simp add: gifDemo_def)
    qed
  qed (simp_all add: gifDemo_def)
  moreover have "lastIndexOf gifDemo 0x3B (int (length gifDemo) - 2)
                 = lastIndexDown gifDemo 0x3B 4"
    by (simp add: lastIndexOf_def gifDemo_def)
  ultimately show ?thesis
    by (simp add: findSplitIndex_def startsWith_def gifDemo_def)
qed

lemma findSplitIndex_pos: "findSplitIndex d = Some b \<Longrightarrow> 0 < b"
  by (auto simp: findSplitIndex_def split: if_splits)

lemma sliceFrom_in_range:
  assumes "0 < q" and "q < of_nat (length d)"
  shows "sliceFrom d (Finite q) = drop (nat \<lfloor>q\<rfloor>) d" and "nat \<lfloor>q\<rfloor> < length d"
proof -
  from assms(1) have nn: "\<not> \<lfloor>q\<rfloor> < 0" by simp
  from assms(2) have lt: "\<lfloor>q\<rfloor> < int (length d)" by (simp add: floor_less_iff)
  from assms(1) have "0 \<le> \<lfloor>q\<rfloor>" by simp
  from nat_less_iff [OF this] lt show "nat \<lfloor>q\<rfloor> < length d" by blast
  from lt have m: "min \<lfloor>q\<rfloor> (int (length d)) = \<lfloor>q\<rfloor>" by simp
  from assms(1) have "\<not> q < 0" by simp
  then show "sliceFrom d (Finite q) = drop (nat \<lfloor>q\<rfloor>) d"
    using nn by (simp only: sliceFrom.simps Let_def if_False m)
qed

lemma decodePolyglotWithAI_parsed:
  assumes "json_parse P text = Some v" and "getProp v ''splitIndex'' = Inr x"
  shows "decodePolyglotWithAI P f (Some text)
         = (case asNumber x of
              None \<Rightarrow> Inr None
            | Some k \<Rightarrow>
                if jsGreater0 k \<and> jsLessLength k (length (file_bytes f))
                then Inr (processPayload P (sliceFrom (file_bytes f) k))
                else Inr None)"
  using assms by (simp add: decodePolyglotWithAI_def Let_def)

lemma decodePolyglotWithAI_in_range:
  assumes "json_parse P text = Some v"
    and "getProp v ''splitIndex'' = Inr (Some (JNumber (Finite q)))"
    and "0 < q" and "q < of_nat (length (file_bytes f))"
  shows "decodePolyglotWithAI P f (Some text)
         = Inr (processPayload P (drop (nat \<lfloor>q\<rfloor>) (file_bytes f)))"
  unfolding decodePolyglotWithAI_parsed [OF assms(1,2)]
  using assms(3,4) sliceFrom_in_range(1) [OF assms(3,4)] by (simp del: sliceFrom.simps)

lemma decodePolyglotWithAI_out_of_range:
  assumes "json_parse P text = Some v" and "getProp v ''splitIndex'' = Inr x"
    and "\<not> (\<exists>q. x = Some (JNumber (Finite q)) \<and> 0 < q \<and> q < of_nat (length (file_bytes f)))"
  shows "decodePolyglotWithAI P f (Some text) = Inr None"
proof (cases "asNumber x")
  case None
  then show ?thesis unfolding decodePolyglotWithAI_parsed [OF assms(1,2)] by simp
next
  case (Some k)
  then have x: "x = Some (JNumber k)" by (cases x rule: asNumber.cases) auto
  show ?thesis
  proof (cases k)
    case (Finite q)
    with x assms(3) have "\<not> (0 < q \<and> q < of_nat (length (file_bytes f)))" by blast
    with Some Finite show ?thesis unfolding decodePolyglotWithAI_parsed [OF assms(1,2)] by auto
  next
    case PosInfinity
    with Some show ?thesis unfolding decodePolyglotWithAI_parsed [OF assms(1,2)] by simp
  next
    case NegInfinity
    with Some show ?thesis unfolding decodePolyglotWithAI_parsed [OF assms(1,2)] by simp
  qed
qed

lemma decodePolyglotWithAI_thrown:
  "decodePolyglotWithAI P f None = Inl OracleFailed"
  "json_parse P text = None \<or> json_parse P text = Some JNull
   \<Longrightarrow> decodePolyglotWithAI P f (Some text) = Inl OracleFailed"
  by (auto simp: decodePolyglotWithAI_def Let_def)

lemma oracleParse_samples:
  "json_parse oraclePlatform (oracleReply ''4'') = Some (JObject [(''splitIndex'', JNumber (Finite 4))])"
  "json_parse oraclePlatform (oracleReply ''8'') = Some (JObject [(''splitIndex'', JNumber (Finite 8))])"
  "json_parse oraclePlatform (oracleReply ''0.5'')
   = Some (JObject [(''splitIndex'', JNumber (Finite (1 / 2)))])"
  "json_parse oraclePlatform (oracleReply ''0'') = Some (JObject [(''splitIndex'', JNumber (Finite 0))])"
  "json_parse oraclePlatform (oracleReply ''-1'')
   = Some (JObject [(''splitIndex'', JNumber (Finite (- 1)))])"
  "json_parse oraclePlatform ''oops'' = None"
  "json_parse oraclePlatform (oracleReply ([CHR 0x22] @ ''4'' @ [CHR 0x22]))
   = Some (JObject [(''splitIndex'', JString ''4'')])"
  by (simp_all add: oraclePlatform_def oracleParse_def oracleReply_def asciiParse_def)

lemma processPayload_generic_samples:
  "processPayload P [0x00, 0x3B]
   = Some \<lparr>df_blob = [0x00, 0x3B], df_name = ''hidden-file.dat'',
           df_type = ''application/octet-stream'', df_size = 2\<rparr>"
  "processPayload P gifDemo
   = Some \<lparr>df_blob = gifDemo, df_name = ''hidden-file.dat'',
           df_type = ''application/octet-stream'', df_size = 6\<rparr>"
proof -
  have e: "envelopeTier P [0x00, 0x3B] = None" "envelopeTier P gifDemo = None"
    by (simp_all add: envelopeTier_def envelopeTry_def getUint32_def gifDemo_def)
  have c: "scanSignatures signatures [0x00, 0x3B] = None"
    "scanSignatures signatures gifDemo = None"
    by (simp_all add: signatures_def gifDemo_def findSequence.simps)
  show "processPayload P [0x00, 0x3B]
   = Some \<lparr>df_blob = [0x00, 0x3B], df_name = ''hidden-file.dat'',
           df_type = ''application/octet-stream'', df_size = 2\<rparr>"
    using e c by (simp add: processPayload_def signatureFallback_def)
  show "processPayload P gifDemo
   = Some \<lparr>df_blob = gifDemo, df_name = ''hidden-file.dat'',
           df_type = ''application/octet-stream'', df_size = 6\<rparr>"
    using e c by (simp add: processPayload_def signatureFallback_def) (simp add: gifDemo_def)
qed

lemma processPayload_exe_sample:
  "processPayload P [0x4D, 0x5A]
   = Some \<lparr>df_blob = [0x4D, 0x5A], df_name = ''hidden-file.exe'',
           df_type = ''application/vnd.microsoft.portable-executable'', df_size = 2\<rparr>"
proof -
  have "envelopeTier P [0x4D, 0x5A] = None" by (simp add: envelopeTier_def)
  moreover have "scanSignatures signatures [0x4D, 0x5A]
       = Some \<lparr>df_blob = [0x4D, 0x5A], df_name = ''hidden-file.exe'',
               df_type = ''application/vnd.microsoft.portable-executable'', df_size = 2\<rparr>"
    by (simp add: signatures_def findSequence.simps)
  ultimately show ?thesis by (simp add: processPayload_def signatureFallback_def)
qed

lemma decodeM4AContainer_m4aDemo:
  "decodeM4AContainer m4aDemo Exe
   = Some (Some \<lparr>df_blob = [0x4D, 0x5A], df_name = ''hidden.exe'',
                  df_type = ''application/vnd.microsoft.portable-executable'', df_size = 2\<rparr>)"
  unfolding decodeM4AContainer_Exe [OF m4aWalk_m4aDemo]
  by (simp add: m4aDemo_payload startsWith_def)

text \<open>
  C8 (as amended). For every oracle response: a rejected request, a reply that does not
  parse, and a reply that parses to \<open>null\<close> make \<open>decodePolyglotWithAI\<close> throw. For every
  other reply, with \<open>x\<close> the \<open>splitIndex\<close> of the parsed value: when \<open>x\<close> is a number \<open>q\<close>
  with \<open>0 < q < length\<close>, the result is \<open>processPayload\<close> of the bytes from the truncated
  \<open>q\<close> on; a file is returned exactly in that case; in every other case (0, -1, out of
  range, an infinity, not a number, absent) the result is no file; and when \<open>x\<close> is the
  boundary that the PNG, JPEG or GIF locator finds, the result is the one that
  \<open>decodePolyglot\<close>'s marker path gives for that boundary.
\<close>

theorem oracle_split_index:
  "decodePolyglotWithAI P f None = Inl OracleFailed
   \<and> (json_parse P text = None \<or> json_parse P text = Some JNull
        \<longrightarrow> decodePolyglotWithAI P f (Some text) = Inl OracleFailed)
   \<and> (json_parse P text = Some v \<and> getProp v ''splitIndex'' = Inr x \<longrightarrow>
        (\<forall>q. x = Some (JNumber (Finite q)) \<and> 0 < q \<and> q < of_nat (length (file_bytes f))
             \<longrightarrow> decodePolyglotWithAI P f (Some text)
                  = Inr (processPayload P (drop (nat \<lfloor>q\<rfloor>) (file_bytes f))))
        \<and> ((\<exists>p. decodePolyglotWithAI P f (Some text) = Inr (Some p))
            = (\<exists>q. x = Some (JNumber (Finite q)) \<and> 0 < q \<and> q < of_nat (length (file_bytes f))))
        \<and> (\<not> (\<exists>q. x = Some (JNumber (Finite q)) \<and> 0 < q \<and> q < of_nat (length (file_bytes f)))
             \<longrightarrow> decodePolyglotWithAI P f (Some text) = Inr None)
        \<and> (\<forall>b. x = Some (JNumber (Finite (of_nat b))) \<and> findSplitIndex (file_bytes f) = Some b
             \<longrightarrow> decodePolyglotWithAI P f (Some text) = Inr (decodeByMarkers P (file_bytes f))))"
proof -
  have t1: "decodePolyglotWithAI P f None = Inl OracleFailed"
    by (rule decodePolyglotWithAI_thrown)
  have t2: "json_parse P text = None \<or> json_parse P text = Some JNull
            \<longrightarrow> decodePolyglotWithAI P f (Some text) = Inl OracleFailed"
    using decodePolyglotWithAI_thrown(2) [of P "text" f] by blast
  have t3: "json_parse P text = Some v \<and> getProp v ''splitIndex'' = Inr x \<longrightarrow>
        (\<forall>q. x = Some (JNumber (Finite q)) \<and> 0 < q \<and> q < of_nat (length (file_bytes f))
             \<longrightarrow> decodePolyglotWithAI P f (Some text)
                  = Inr (processPayload P (drop (nat \<lfloor>q\<rfloor>) (file_bytes f))))
        \<and> ((\<exists>p. decodePolyglotWithAI P f (Some text) = Inr (Some p))
            = (\<exists>q. x = Some (JNumber (Finite q)) \<and> 0 < q \<and> q < of_nat (length (file_bytes f))))
        \<and> (\<not> (\<exists>q. x = Some (JNumber (Finite q)) \<and> 0 < q \<and> q < of_nat (length (file_bytes f)))
             \<longrightarrow> decodePolyglotWithAI P f (Some text) = Inr None)
        \<and> (\<forall>b. x = Some (JNumber (Finite (of_nat b))) \<and> findSplitIndex (file_bytes f) = Some b
             \<longrightarrow> decodePolyglotWithAI P f (Some text) = Inr (decodeByMarkers P (file_bytes f)))"
  proof (rule impI, intro conjI)
    assume a: "json_parse P text = Some v \<and> getProp v ''splitIndex'' = Inr x"
    then have p: "json_parse P text = Some v" and g: "getProp v ''splitIndex'' = Inr x"
    by simp_all
  let ?R = "\<lambda>q. x = Some (JNumber (Finite q)) \<and> 0 < q \<and> q < of_nat (length (file_bytes f))"
  have inr: "decodePolyglotWithAI P f (Some text)
             = Inr (processPayload P (drop (nat \<lfloor>q\<rfloor>) (file_bytes f)))" if "?R q" for q
    using that decodePolyglotWithAI_in_range [OF p, of q f] g by simp
  have some: "\<exists>p. decodePolyglotWithAI P f (Some text) = Inr (Some p)" if "?R q" for q
  proof -
    from that have "nat \<lfloor>q\<rfloor> < length (file_bytes f)" by (simp add: sliceFrom_in_range)
    then have "drop (nat \<lfloor>q\<rfloor>) (file_bytes f) \<noteq> []" by simp
    from processPayload_nonempty [OF this, of P] inr [OF that] show ?thesis by auto
  qed
  have none: "decodePolyglotWithAI P f (Some text) = Inr None" if "\<not> (\<exists>q. ?R q)"
    using decodePolyglotWithAI_out_of_range [OF p g that] .
  show "\<forall>q. ?R q \<longrightarrow> decodePolyglotWithAI P f (Some text)
                  = Inr (processPayload P (drop (nat \<lfloor>q\<rfloor>) (file_bytes f)))"
    using inr by blast
  show "(\<exists>p. decodePolyglotWithAI P f (Some text) = Inr (Some p)) = (\<exists>q. ?R q)"
    using some none by (cases "\<exists>q. ?R q") auto
  show "\<not> (\<exists>q. ?R q) \<longrightarrow> decodePolyglotWithAI P f (Some text) = Inr None"
    using none by blast
  show "\<forall>b. x = Some (JNumber (Finite (of_nat b))) \<and> findSplitIndex (file_bytes f) = Some b
             \<longrightarrow> decodePolyglotWithAI P f (Some text) = Inr (decodeByMarkers P (file_bytes f))"
  proof (intro allI impI)
    fix b assume h: "x = Some (JNumber (Finite (of_nat b))) \<and> findSplitIndex (file_bytes f) = Some b"
    then have pos: "0 < b" using findSplitIndex_pos by blast
    show "decodePolyglotWithAI P f (Some text) = Inr (decodeByMarkers P (file_bytes f))"
    proof (cases "b < length (file_bytes f)")
      case True
      with h pos have "?R (of_nat b)" by simp
      from inr [OF this] h True show ?thesis by (simp add: decodeByMarkers_def)
    next
      case False
      with h have "\<not> (\<exists>q. ?R q)" by auto
      from none [OF this] h False show ?thesis by (simp add: decodeByMarkers_def)
    qed
  qed
  qed
  from t1 t2 t3 show ?thesis by (intro conjI)
qed

text \<open>
  On the 6-byte GIF sample: a rejected request and an unreadable reply throw; the reply
  4 classifies the bytes from 4 on, as the GIF locator's boundary 4 does; the reply 0.5
  passes the range test and is truncated to 0, so the whole file is classified; the
  replies 0, -1 and the string \<open>"4"\<close> give no file.
\<close>

theorem oracle_split_index_witness:
  "decodePolyglotWithAI oraclePlatform gifFileDemo None = Inl OracleFailed
   \<and> json_parse oraclePlatform ''oops'' = None
   \<and> decodePolyglotWithAI oraclePlatform gifFileDemo (Some ''oops'') = Inl OracleFailed
   \<and> json_parse oraclePlatform (oracleReply ''4'')
       = Some (JObject [(''splitIndex'', JNumber (Finite 4))])
   \<and> getProp (JObject [(''splitIndex'', JNumber (Finite 4))]) ''splitIndex''
       = Inr (Some (JNumber (Finite 4)))
   \<and> decodePolyglotWithAI oraclePlatform gifFileDemo (Some (oracleReply ''4''))
       = Inr (Some \<lparr>df_blob = [0x00, 0x3B], df_name = ''hidden-file.dat'',
                     df_type = ''application/octet-stream'', df_size = 2\<rparr>)
   \<and> findSplitIndex (file_bytes gifFileDemo) = Some 4
   \<and> decodePolyglotWithAI oraclePlatform gifFileDemo (Some (oracleReply ''4''))
       = Inr (decodeByMarkers oraclePlatform (file_bytes gifFileDemo))
   \<and> json_parse oraclePlatform (oracleReply ''0.5'')
       = Some (JObject [(''splitIndex'', JNumber (Finite (1 / 2)))])
   \<and> decodePolyglotWithAI oraclePlatform gifFileDemo (Some (oracleReply ''0.5''))
       = Inr (Some \<lparr>df_blob = file_bytes gifFileDemo, df_name = ''hidden-file.dat'',
                     df_type = ''application/octet-stream'', df_size = 6\<rparr>)
   \<and> json_parse oraclePlatform (oracleReply ''0'')
       = Some (JObject [(''splitIndex'', JNumber (Finite 0))])
   \<and> decodePolyglotWithAI oraclePlatform gifFileDemo (Some (oracleReply ''0'')) = Inr None
   \<and> json_parse oraclePlatform (oracleReply ''-1'')
       = Some (JObject [(''splitIndex'', JNumber (Finite (- 1)))])
   \<and> decodePolyglotWithAI oraclePlatform gifFileDemo (Some (oracleReply ''-1'')) = Inr None
   \<and> json_parse oraclePlatform (oracleReply ([CHR 0x22] @ ''4'' @ [CHR 0x22]))
       = Some (JObject [(''splitIndex'', JString ''4'')])
   \<and> decodePolyglotWithAI oraclePlatform gifFileDemo
         (Some (oracleReply ([CHR 0x22] @ ''4'' @ [CHR 0x22]))) = Inr None"
proof -
  let ?P = oraclePlatform and ?f = gifFileDemo
  have b: "file_bytes gifFileDemo = gifDemo" by (simp add: gifFileDemo_def)
  have l: "length gifDemo = 6" "drop 4 gifDemo = [0x00, 0x3B]" by (simp_all add: gifDemo_def)
  have s: "findSplitIndex (file_bytes gifFileDemo) = Some 4"
    by (simp add: b findSplitIndex_gifDemo)
  have w0: "decodePolyglotWithAI ?P ?f None = Inl OracleFailed"
    using oracle_split_index [of ?P ?f "''oops''"] by blast
  have w1: "decodePolyglotWithAI ?P ?f (Some ''oops'') = Inl OracleFailed"
    using oracle_split_index [of ?P ?f "''oops''"] oracleParse_samples(6) by blast
  have g4: "getProp (JObject [(''splitIndex'', JNumber (Finite 4))]) ''splitIndex''
            = Inr (Some (JNumber (Finite 4)))" by simp
  note t4 = oracle_split_index [of ?P ?f "oracleReply ''4''"
      "JObject [(''splitIndex'', JNumber (Finite 4))]" "Some (JNumber (Finite 4))"]
  have r4: "(0::rat) < 4 \<and> (4::rat) < of_nat (length (file_bytes ?f))" by (simp add: b l)
  from t4 oracleParse_samples(1) g4 r4
  have "decodePolyglotWithAI ?P ?f (Some (oracleReply ''4''))
        = Inr (processPayload ?P (drop (nat \<lfloor>4::rat\<rfloor>) (file_bytes ?f)))" by blast
  then have w4: "decodePolyglotWithAI ?P ?f (Some (oracleReply ''4''))
       = Inr (Some \<lparr>df_blob = [0x00, 0x3B], df_name = ''hidden-file.dat'',
                     df_type = ''application/octet-stream'', df_size = 2\<rparr>)"
    by (simp add: b l processPayload_generic_samples)
  have "Some (JNumber (Finite 4)) = Some (JNumber (Finite (of_nat 4)))" by simp
  with t4 oracleParse_samples(1) g4 s
  have m4: "decodePolyglotWithAI ?P ?f (Some (oracleReply ''4''))
            = Inr (decodeByMarkers ?P (file_bytes ?f))" by blast
  have gh: "getProp (JObject [(''splitIndex'', JNumber (Finite (1 / 2)))]) ''splitIndex''
            = Inr (Some (JNumber (Finite (1 / 2))))" by simp
  note th = oracle_split_index [of ?P ?f "oracleReply ''0.5''"
      "JObject [(''splitIndex'', JNumber (Finite (1 / 2)))]" "Some (JNumber (Finite (1 / 2)))"]
  have rh: "(0::rat) < 1 / 2 \<and> (1 / 2 :: rat) < of_nat (length (file_bytes ?f))"
    by (simp add: b l)
  from th oracleParse_samples(3) gh rh
  have "decodePolyglotWithAI ?P ?f (Some (oracleReply ''0.5''))
        = Inr (processPayload ?P (drop (nat \<lfloor>1 / 2 :: rat\<rfloor>) (file_bytes ?f)))" by blast
  then have wh: "decodePolyglotWithAI ?P ?f (Some (oracleReply ''0.5''))
       = Inr (Some \<lparr>df_blob = file_bytes ?f, df_name = ''hidden-file.dat'',
                     df_type = ''application/octet-stream'', df_size = 6\<rparr>)"
    by (simp add: b processPayload_generic_samples)
  have g0: "getProp (JObject [(''splitIndex'', JNumber (Finite 0))]) ''splitIndex''
            = Inr (Some (JNumber (Finite 0)))" by simp
  note t0 = oracle_split_index [of ?P ?f "oracleReply ''0''"
      "JObject [(''splitIndex'', JNumber (Finite 0))]" "Some (JNumber (Finite 0))"]
  have "\<not> (\<exists>q. Some (JNumber (Finite 0)) = Some (JNumber (Finite q)) \<and> 0 < q
              \<and> q < of_nat (length (file_bytes ?f)))" by auto
  with t0 oracleParse_samples(4) g0
  have w00: "decodePolyglotWithAI ?P ?f (Some (oracleReply ''0'')) = Inr None" by blast
  have gm: "getProp (JObject [(''splitIndex'', JNumber (Finite (- 1)))]) ''splitIndex''
            = Inr (Some (JNumber (Finite (- 1))))" by simp
  note tm = oracle_split_index [of ?P ?f "oracleReply ''-1''"
      "JObject [(''splitIndex'', JNumber (Finite (- 1)))]" "Some (JNumber (Finite (- 1)))"]
  have "\<not> (\<exists>q. Some (JNumber (Finite (- 1))) = Some (JNumber (Finite q)) \<and> 0 < q
              \<and> q < of_nat (length (file_bytes ?f)))" by auto
  with tm oracleParse_samples(5) gm
  have wm: "decodePolyglotWithAI ?P ?f (Some (oracleReply ''-1'')) = Inr None" by blast
  have gs: "getProp (JObject [(''splitIndex'', JString ''4'')]) ''splitIndex''
            = Inr (Some (JString ''4''))" by simp
  note ts = oracle_split_index [of ?P ?f "oracleReply ([CHR 0x22] @ ''4'' @ [CHR 0x22])"
      "JObject [(''splitIndex'', JString ''4'')]" "Some (JString ''4'')"]
  have "\<not> (\<exists>q. Some (JString ''4'') = Some (JNumber (Finite q)) \<and> 0 < q
              \<and> q < of_nat (length (file_bytes ?f)))" by auto
  with ts oracleParse_samples(7) gs
  have ws: "decodePolyglotWithAI ?P ?f
              (Some (oracleReply ([CHR 0x22] @ ''4'' @ [CHR 0x22]))) = Inr None" by blast
  from w0 oracleParse_samples(6) w1 oracleParse_samples(1) g4 w4 s m4 oracleParse_samples(3) wh
    oracleParse_samples(4) w00 oracleParse_samples(5) wm oracleParse_samples(7) ws
  show ?thesis by (intro conjI)
qed

text \<open>
  For a box of size 8 followed by \<open>4D 5A\<close> the M4A locator finds the boundary 8 and
  \<open>decodePolyglot\<close> returns \<open>hidden.exe\<close>; the oracle reply 8 on the same file returns
  \<open>hidden-file.exe\<close>.
\<close>

theorem oracle_split_index_counterexample:
  "m4aWalk m4aDemo 0 = Some 8
   \<and> decodePolyglot oraclePlatform (m4aFileDemo m4aDemo) (Some \<lparr>executableType = Some Exe\<rparr>)
       = Some (Some \<lparr>df_blob = [0x4D, 0x5A], df_name = ''hidden.exe'',
                      df_type = ''application/vnd.microsoft.portable-executable'',
                      df_size = 2\<rparr>)
   \<and> json_parse oraclePlatform (oracleReply ''8'')
       = Some (JObject [(''splitIndex'', JNumber (Finite 8))])
   \<and> decodePolyglotWithAI oraclePlatform (m4aFileDemo m4aDemo) (Some (oracleReply ''8''))
       = Inr (Some \<lparr>df_blob = [0x4D, 0x5A], df_name = ''hidden-file.exe'',
                     df_type = ''application/vnd.microsoft.portable-executable'',
                     df_size = 2\<rparr>)"
proof -
  have d: "decodePolyglot oraclePlatform (m4aFileDemo m4aDemo)
             (Some \<lparr>executableType = Some Exe\<rparr>)
       = Some (Some \<lparr>df_blob = [0x4D, 0x5A], df_name = ''hidden.exe'',
                      df_type = ''application/vnd.microsoft.portable-executable'',
                      df_size = 2\<rparr>)"
    using isM4A_m4aFileDemo [of m4aDemo]
    by (simp add: decodePolyglot_def m4aFileDemo_def decodeM4AContainer_m4aDemo)
  have g: "getProp (JObject [(''splitIndex'', JNumber (Finite 8))]) ''splitIndex''
           = Inr (Some (JNumber (Finite 8)))" by simp
  have "decodePolyglotWithAI oraclePlatform (m4aFileDemo m4aDemo) (Some (oracleReply ''8''))
        = Inr (processPayload oraclePlatform
                 (drop (nat \<lfloor>8::rat\<rfloor>) (file_bytes (m4aFileDemo m4aDemo))))"
    by (rule decodePolyglotWithAI_in_range [OF oracleParse_samples(2) g])
       (simp_all add: m4aFileDemo_def m4aDemo_payload)
  then have o: "decodePolyglotWithAI oraclePlatform (m4aFileDemo m4aDemo)
                  (Some (oracleReply ''8''))
       = Inr (Some \<lparr>df_blob = [0x4D, 0x5A], df_name = ''hidden-file.exe'',
                     df_type = ''application/vnd.microsoft.portable-executable'',
                     df_size = 2\<rparr>)"
    by (simp add: m4aFileDemo_def m4aDemo_payload processPayload_exe_sample)
  from m4aWalk_m4aDemo d oracleParse_samples(2) o show ?thesis by (intro conjI)
qed

end
